theory Spec2Isabelle
  imports Main
begin

section \<open>Resumable batch collection: \<open>steam_data_collection.py\<close>\<close>

text \<open>
  A shallow embedding of the download logic of \<^verbatim>\<open>src/steam_data_collection.py\<close>:
  the checkpoint file (\<^verbatim>\<open>reset_index\<close>, \<^verbatim>\<open>get_index\<close>), the sink file
  (\<^verbatim>\<open>prepare_data_file\<close>), the batch loop (\<^verbatim>\<open>get_app_data\<close>,
  \<^verbatim>\<open>process_batches\<close>) and the HTTP client (\<^verbatim>\<open>get_request\<close>).

  Python integers are \<open>int\<close>. An exception is a value of \<open>exn\<close>; a function that can
  raise returns \<open>exn + 'a\<close>, and one that also writes files returns the file system it
  leaves behind together with the exception, since what was written before the raise stays
  on disk.

  Left aside: console output and timing of the batch loop, and the 64-bit range of the
  numpy integers that hold the batch points.
\<close>

subsection \<open>Exceptions\<close>

datatype exn =
    NameError string            \<comment> \<open>an unbound global name was evaluated\<close>
  | ValueError                  \<comment> \<open>\<^verbatim>\<open>int()\<close> on text that is no integer literal\<close>
  | ZeroDivisionError           \<comment> \<open>\<^verbatim>\<open>np.arange\<close> with step 0\<close>
  | JSONDecodeError             \<comment> \<open>\<^verbatim>\<open>response.json()\<close> on a body that is not JSON\<close>
  | RecursionError              \<comment> \<open>the interpreter's recursion limit was reached\<close>
  | Raised string               \<comment> \<open>any exception class raised by a collaborator (transport, parser)\<close>

subsection \<open>Text of integers: \<^verbatim>\<open>print(i, file=f)\<close> and \<^verbatim>\<open>int(s)\<close>\<close>

definition digit_char :: "nat \<Rightarrow> char" where
  "digit_char d = char_of (48 + d)"

definition is_digit :: "char \<Rightarrow> bool" where
  "is_digit c = (48 \<le> (of_char c :: nat) \<and> (of_char c :: nat) \<le> 57)"

definition digit_val :: "char \<Rightarrow> nat" where
  "digit_val c = of_char c - 48"

text \<open>The decimal digits of a natural number, most significant first.\<close>

function digits :: "nat \<Rightarrow> string" where
  "digits n = (if n < 10 then [digit_char n] else digits (n div 10) @ [digit_char (n mod 10)])"
  by pat_completeness auto
termination
  by (relation "measure (\<lambda>n. n)") auto

declare digits.simps [simp del]

text \<open>\<^verbatim>\<open>str(i)\<close> for a Python integer.\<close>

definition py_str :: "int \<Rightarrow> string" where
  "py_str i = (if i < 0 then CHR ''-'' # digits (nat (- i)) else digits (nat i))"

text \<open>
  \<^verbatim>\<open>int(s)\<close> in base 10, on ASCII text: the blanks around the literal are stripped (tab,
  line feed, vertical tab, form feed, carriage return and space; the separators
  0x1C..0x1F are no blanks for ASCII text), one sign is allowed, then a non-empty run of
  digits in which single underscores may separate digits. Anything else raises
  \<^verbatim>\<open>ValueError\<close>, which is \<open>None\<close> here.

  Two things the builtin does are outside this function: on text with a character beyond
  ASCII it consults the Unicode tables, and on a literal of more than 4300 digits it raises
  \<^verbatim>\<open>ValueError\<close> (the default of \<^verbatim>\<open>sys.int_max_str_digits\<close>). \<open>ascii_line\<close> and a
  length of at most 4300 say that a line is inside the domain where \<open>py_int\<close> is the
  builtin; the statement about reading the index file is made for such lines. The text
  \<^verbatim>\<open>print\<close> writes for a 64-bit index is inside it.
\<close>

definition is_space :: "char \<Rightarrow> bool" where
  "is_space c = (let k = (of_char c :: nat) in (9 \<le> k \<and> k \<le> 13) \<or> k = 32)"

definition strip :: "string \<Rightarrow> string" where
  "strip s = rev (dropWhile is_space (rev (dropWhile is_space s)))"

fun py_digits :: "nat \<Rightarrow> string \<Rightarrow> nat option" where
  "py_digits acc [] = Some acc"
| "py_digits acc (c # cs) =
     (if is_digit c then py_digits (10 * acc + digit_val c) cs
      else if c = CHR ''_'' then
        (case cs of
           [] \<Rightarrow> None
         | d # ds \<Rightarrow> if is_digit d then py_digits (10 * acc + digit_val d) ds else None)
      else None)"

definition py_nat :: "string \<Rightarrow> nat option" where
  "py_nat s =
     (case s of
        [] \<Rightarrow> None
      | c # cs \<Rightarrow> if is_digit c then py_digits (digit_val c) cs else None)"

definition py_int :: "string \<Rightarrow> int option" where
  "py_int s =
     (case strip s of
        [] \<Rightarrow> None
      | c # cs \<Rightarrow>
          if c = CHR ''-'' then map_option (\<lambda>n. - int n) (py_nat cs)
          else if c = CHR ''+'' then map_option int (py_nat cs)
          else map_option int (py_nat (c # cs)))"

text \<open>A line of ASCII text: no character beyond 127 and, being one line, no line feed
  or carriage return.\<close>

definition ascii_line :: "string \<Rightarrow> bool" where
  "ascii_line l =
     list_all (\<lambda>c. (of_char c :: nat) < 128 \<and> (of_char c :: nat) \<noteq> 10
                  \<and> (of_char c :: nat) \<noteq> 13) l"

subsection \<open>Files\<close>

text \<open>
  A text file is the list of its lines (without terminators); the file system maps a path
  to its file, \<open>None\<close> when there is none. \<open>history\<close> records every completed write in
  order, so that a statement can say which writes a call made and that it made none.
  Opening a file for writing or appending is taken to succeed (the download directory
  exists and is writable).
\<close>

type_synonym path = string
type_synonym line = string

datatype fs_event = Wrote path "line list" | Appended path "line list"

record fsys =
  files :: "path \<Rightarrow> line list option"
  history :: "fs_event list"

text \<open>\<^verbatim>\<open>os.path.join(a, b)\<close> on POSIX.\<close>

definition os_path_join :: "path \<Rightarrow> path \<Rightarrow> path" where
  "os_path_join a b =
     (if b \<noteq> [] \<and> hd b = CHR ''/'' then b
      else if a = [] \<or> last a = CHR ''/'' then a @ b
      else a @ ''/'' @ b)"

text \<open>\<^verbatim>\<open>with open(p, 'w') as f\<close>: the file is truncated or created, then holds what was written.\<close>

definition write_file :: "path \<Rightarrow> line list \<Rightarrow> fsys \<Rightarrow> fsys" where
  "write_file p ls s = s\<lparr>files := (files s)(p \<mapsto> ls), history := history s @ [Wrote p ls]\<rparr>"

text \<open>What a file holds; nothing when it does not exist.\<close>

definition contents :: "fsys \<Rightarrow> path \<Rightarrow> line list" where
  "contents s p = (case files s p of None \<Rightarrow> [] | Some ls \<Rightarrow> ls)"

text \<open>\<^verbatim>\<open>with open(p, 'a') as f\<close>: the file is created when missing; what is written goes after
  what it holds.\<close>

definition append_file :: "path \<Rightarrow> line list \<Rightarrow> fsys \<Rightarrow> fsys" where
  "append_file p ls s =
     s\<lparr>files := (files s)(p \<mapsto> contents s p @ ls), history := history s @ [Appended p ls]\<rparr>"

text \<open>\<^verbatim>\<open>f.readline()\<close> on a freshly opened file: the first line, empty at end of file.\<close>

definition readline :: "line list \<Rightarrow> string" where
  "readline ls = (case ls of [] \<Rightarrow> [] | l # _ \<Rightarrow> l)"

subsection \<open>The checkpoint file\<close>

definition reset_index :: "path \<Rightarrow> path \<Rightarrow> fsys \<Rightarrow> fsys" where
  "reset_index download_path index_filename s =
     (let rel_path = os_path_join download_path index_filename
      in write_file rel_path [py_str 0] s)"

text \<open>
  \<^verbatim>\<open>get_index\<close>: only \<^verbatim>\<open>FileNotFoundError\<close> is caught, so the \<^verbatim>\<open>ValueError\<close> of
  \<^verbatim>\<open>int(f.readline())\<close> leaves the function.
\<close>

definition get_index :: "path \<Rightarrow> path \<Rightarrow> fsys \<Rightarrow> exn + int" where
  "get_index download_path index_filename s =
     (let rel_path = os_path_join download_path index_filename
      in case files s rel_path of
           None \<Rightarrow> Inr 0
         | Some ls \<Rightarrow>
             (case py_int (readline ls) of
                None \<Rightarrow> Inl ValueError
              | Some index \<Rightarrow> Inr index))"

subsection \<open>The sink file\<close>

text \<open>
  A cell of a CSV row is a string (a column name in the header, the \<^verbatim>\<open>restval\<close> \<^verbatim>\<open>''\<close> of
  a missing key) or a value of a record. How \<^verbatim>\<open>csv.writer\<close> renders a row as text is
  the parameter \<open>fmt\<close> of the functions that write rows.
\<close>

datatype 'v cell = Str string | Val 'v

type_synonym 'v csv_format = "'v cell list \<Rightarrow> line"

text \<open>A record is a Python \<^verbatim>\<open>dict\<close> from column names to values.\<close>

type_synonym 'v pydict = "string \<Rightarrow> 'v option"

text \<open>\<^verbatim>\<open>DictWriter._dict_to_list\<close> with \<^verbatim>\<open>extrasaction='ignore'\<close>: one cell per declared
  column, keys outside the columns are not looked at.\<close>

definition dict_to_list :: "string list \<Rightarrow> 'v pydict \<Rightarrow> 'v cell list" where
  "dict_to_list fieldnames rowdict =
     map (\<lambda>key. case rowdict key of None \<Rightarrow> Str [] | Some v \<Rightarrow> Val v) fieldnames"

text \<open>\<^verbatim>\<open>DictWriter.writeheader\<close> writes the row of the column names.\<close>

definition header_row :: "string list \<Rightarrow> 'v cell list" where
  "header_row fieldnames = map Str fieldnames"

definition prepare_data_file ::
  "'v csv_format \<Rightarrow> path \<Rightarrow> path \<Rightarrow> int \<Rightarrow> string list \<Rightarrow> fsys \<Rightarrow> fsys" where
  "prepare_data_file fmt download_path filename index columns s =
     (if index = 0 then
        (let rel_path = os_path_join download_path filename
         in write_file rel_path [fmt (header_row columns)] s)
      else s)"

subsection \<open>The entity list and its slices\<close>

record entity =
  appid :: int
  name :: string

text \<open>
  \<^verbatim>\<open>xs[i:j]\<close> for integers: a negative bound counts from the end, and both bounds are
  clamped to the list, so a slice never raises.
\<close>

definition slice_bound :: "nat \<Rightarrow> int \<Rightarrow> nat" where
  "slice_bound n k = (if k < 0 then nat (max 0 (k + int n)) else min (nat k) n)"

definition py_slice :: "'a list \<Rightarrow> int \<Rightarrow> int \<Rightarrow> 'a list" where
  "py_slice xs i j =
     (let a = slice_bound (length xs) i; b = slice_bound (length xs) j
      in take (b - a) (drop a xs))"

subsection \<open>Fetching one batch: \<^verbatim>\<open>get_app_data\<close>\<close>

text \<open>
  The parser is the caller's function from an app id and a name to a record; it may raise.
  The loop of \<^verbatim>\<open>get_app_data\<close> over the rows of the slice, with the list built so far:
  an exception of the parser leaves the loop and the function.
\<close>

type_synonym 'v parser = "int \<Rightarrow> string \<Rightarrow> exn + 'v pydict"

fun iterrows :: "'v parser \<Rightarrow> entity list \<Rightarrow> 'v pydict list \<Rightarrow> exn + 'v pydict list" where
  "iterrows parser [] app_data = Inr app_data"
| "iterrows parser (row # rest) app_data =
     (case parser (appid row) (name row) of
        Inl e \<Rightarrow> Inl e
      | Inr data \<Rightarrow> iterrows parser rest (app_data @ [data]))"

text \<open>
  \<^verbatim>\<open>get_app_data(start, stop, parser, pause)\<close> has no entity list among its parameters:
  the name \<^verbatim>\<open>app_list\<close> in its body is the module-level variable. \<open>global_app_list\<close> is
  the value of that variable when the function runs. The pause between requests changes
  no file and is left out.
\<close>

definition get_app_data :: "entity list \<Rightarrow> int \<Rightarrow> int \<Rightarrow> 'v parser \<Rightarrow> exn + 'v pydict list" where
  "get_app_data global_app_list start stop parser =
     iterrows parser (py_slice global_app_list start stop) []"

subsection \<open>The batch loop: \<^verbatim>\<open>process_batches\<close>\<close>

text \<open>
  \<^verbatim>\<open>np.arange(start, stop, step)\<close> on integers: \<open>\<lceil>(stop - start) / step\<rceil>\<close> values,
  none when that is negative; a zero step raises.
\<close>

definition np_arange :: "int \<Rightarrow> int \<Rightarrow> int \<Rightarrow> exn + int list" where
  "np_arange start stop step =
     (if step = 0 then Inl ZeroDivisionError
      else Inr (map (\<lambda>i. start + int i * step) [0..<nat (- ((start - stop) div step))]))"

text \<open>
  The body of \<^verbatim>\<open>for i in range(len(batches) - 1)\<close>, as a recursion on the boundaries that
  are left: \<open>start\<close> and \<open>stop\<close> are \<^verbatim>\<open>batches[i]\<close> and \<^verbatim>\<open>batches[i+1]\<close>. The rows of a
  batch are appended to the data file in one \<^verbatim>\<open>writerows\<close>, then the index file is
  rewritten with \<open>stop\<close>. The result is the exception that ended the run, if any, and
  the file system the run left.
\<close>

fun batch_loop ::
  "entity list \<Rightarrow> 'v csv_format \<Rightarrow> 'v parser \<Rightarrow> path \<Rightarrow> path \<Rightarrow> path \<Rightarrow> string list \<Rightarrow>
   int list \<Rightarrow> fsys \<Rightarrow> exn option \<times> fsys" where
  "batch_loop global_app_list fmt parser download_path data_filename index_filename columns
       (start # stop # rest) s =
     (case get_app_data global_app_list start stop parser of
        Inl e \<Rightarrow> (Some e, s)
      | Inr app_data \<Rightarrow>
          (let rel_path = os_path_join download_path data_filename;
               s1 = append_file rel_path
                      (map (\<lambda>rowdict. fmt (dict_to_list columns rowdict)) app_data) s;
               idx_path = os_path_join download_path index_filename;
               s2 = write_file idx_path [py_str stop] s1
           in batch_loop global_app_list fmt parser download_path data_filename index_filename
                columns (stop # rest) s2))"
| "batch_loop global_app_list fmt parser download_path data_filename index_filename columns
       batches s = (None, s)"

text \<open>The end index the run uses: the sentinel \<open>-1\<close> is replaced by \<^verbatim>\<open>len(app_list) + 1\<close>.\<close>

definition effective_end :: "entity list \<Rightarrow> int \<Rightarrow> int" where
  "effective_end app_list end = (if end = - 1 then int (length app_list) + 1 else end)"

text \<open>The array \<^verbatim>\<open>batches\<close>: the batch starts, then the end index.\<close>

definition batch_points :: "entity list \<Rightarrow> int \<Rightarrow> int \<Rightarrow> int \<Rightarrow> exn + int list" where
  "batch_points app_list begin end batchsize =
     (let end' = effective_end app_list end
      in case np_arange begin end' batchsize of
           Inl e \<Rightarrow> Inl e
         | Inr batches \<Rightarrow> Inr (batches @ [end']))"

text \<open>
  \<^verbatim>\<open>process_batches\<close>. \<open>app_list\<close> is its parameter, used for \<^verbatim>\<open>len(app_list)\<close> only;
  \<open>global_app_list\<close> is the module-level list that \<^verbatim>\<open>get_app_data\<close> reads.
\<close>

definition process_batches ::
  "entity list \<Rightarrow> 'v csv_format \<Rightarrow> 'v parser \<Rightarrow> entity list \<Rightarrow> path \<Rightarrow> path \<Rightarrow> path \<Rightarrow>
   string list \<Rightarrow> int \<Rightarrow> int \<Rightarrow> int \<Rightarrow> fsys \<Rightarrow> exn option \<times> fsys" where
  "process_batches global_app_list fmt parser app_list download_path data_filename
       index_filename columns begin end batchsize s =
     (case batch_points app_list begin end batchsize of
        Inl e \<Rightarrow> (Some e, s)
      | Inr batches \<Rightarrow>
          batch_loop global_app_list fmt parser download_path data_filename index_filename
            columns batches s)"

subsection \<open>The HTTP client: \<^verbatim>\<open>get_request\<close>\<close>

text \<open>
  What one call of \<^verbatim>\<open>requests.get\<close> does: it raises, or it returns a response. A
  response is true in a condition when \<^verbatim>\<open>response.ok\<close> is, that is unless its status
  code is in 400..599.
\<close>

record 'j response =
  status_code :: nat
  json_body :: "'j option"       \<comment> \<open>\<open>None\<close>: the body is not JSON\<close>

datatype 'j outcome = Raises exn | Returns "'j response"

definition truthy :: "'j response \<Rightarrow> bool" where
  "truthy response = (\<not> (400 \<le> status_code response \<and> status_code response < 600))"

type_synonym params = "(string \<times> string) list option"

datatype io_event = Requested string params | Printed string | Slept nat

record client =
  calls :: nat                   \<comment> \<open>calls of \<^verbatim>\<open>requests.get\<close> so far\<close>
  console :: "io_event list"     \<comment> \<open>requests, output and sleeps (in seconds), in order\<close>

text \<open>The network: what the \<open>k\<close>-th call of \<^verbatim>\<open>requests.get\<close> does for a url and parameters.\<close>

type_synonym 'j transport = "string \<Rightarrow> params \<Rightarrow> nat \<Rightarrow> 'j outcome"

text \<open>
  \<^verbatim>\<open>get_request\<close>. The module imports \<^verbatim>\<open>requests\<close> but binds no name \<^verbatim>\<open>SSLError\<close>, so
  when \<^verbatim>\<open>requests.get\<close> raises, matching the exception against \<^verbatim>\<open>except SSLError\<close>
  evaluates an unbound name and raises \<^verbatim>\<open>NameError\<close>; the handler body never runs. A
  response that is not true is followed by the 10 second wait and the same call again.

  The retry is a recursive call, so every retry is one more frame on the interpreter's
  stack. \<open>frames\<close> is the number of frames the stack can still take when
  \<^verbatim>\<open>get_request\<close> is called (about a thousand at the top of a program), \<open>need\<close> the
  number \<^verbatim>\<open>requests.get\<close> needs for its own calls, taken to be the deepest call of the
  body. With no frame left the call itself raises \<^verbatim>\<open>RecursionError\<close>. With too few for
  \<^verbatim>\<open>requests.get\<close>, the \<^verbatim>\<open>RecursionError\<close> is raised inside the \<^verbatim>\<open>try\<close> and, like every
  exception there, ends as \<^verbatim>\<open>NameError\<close>; that call is not counted as a request.
\<close>

fun get_request ::
  "nat \<Rightarrow> nat \<Rightarrow> 'j transport \<Rightarrow> string \<Rightarrow> params \<Rightarrow> client \<Rightarrow> (exn + 'j) \<times> client" where
  "get_request need 0 transport url parameters c = (Inl RecursionError, c)"
| "get_request need (Suc frames) transport url parameters c =
     (if frames < need then (Inl (NameError ''SSLError''), c)
      else
        (let c1 = c\<lparr>calls := calls c + 1, console := console c @ [Requested url parameters]\<rparr>
         in case transport url parameters (calls c) of
              Raises e \<Rightarrow> (Inl (NameError ''SSLError''), c1)
            | Returns response \<Rightarrow>
                if truthy response then
                  ((case json_body response of None \<Rightarrow> Inl JSONDecodeError | Some j \<Rightarrow> Inr j), c1)
                else
                  get_request need frames transport url parameters
                    (c1\<lparr>console := console c1 @
                       [Printed ''No response, waiting 10 seconds...'', Slept 10,
                        Printed ''Retrying.'']\<rparr>)))"

text \<open>What one retry adds to the console, and the client after \<open>m\<close> retries.\<close>

definition retry_events :: "string \<Rightarrow> params \<Rightarrow> io_event list" where
  "retry_events url parameters =
     [Requested url parameters, Printed ''No response, waiting 10 seconds...'', Slept 10,
      Printed ''Retrying.'']"

definition after_retries :: "string \<Rightarrow> params \<Rightarrow> nat \<Rightarrow> client \<Rightarrow> client" where
  "after_retries url parameters m c =
     c\<lparr>calls := calls c + m,
       console := console c @ concat (replicate m (retry_events url parameters))\<rparr>"

subsection \<open>Observations on a run\<close>

text \<open>The contents of the truncating writes made to a path, oldest first: for the index
  file, the checkpoints persisted so far.\<close>

fun truncating_writes :: "path \<Rightarrow> fs_event list \<Rightarrow> line list list" where
  "truncating_writes p [] = []"
| "truncating_writes p (Wrote q ls # es) =
     (if q = p then ls # truncating_writes p es else truncating_writes p es)"
| "truncating_writes p (Appended q ls # es) = truncating_writes p es"

subsection \<open>A concrete run\<close>

text \<open>
  The inputs of the examples: five apps, a parser that returns the id, the name and ten
  times the id, and rows rendered as \<^verbatim>\<open>csv.writer\<close> renders strings that need no quoting.
\<close>

definition demo_apps :: "entity list" where
  "demo_apps =
     [\<lparr>appid = 1, name = ''A''\<rparr>, \<lparr>appid = 2, name = ''B''\<rparr>, \<lparr>appid = 3, name = ''C''\<rparr>,
      \<lparr>appid = 4, name = ''D''\<rparr>, \<lparr>appid = 5, name = ''E''\<rparr>]"

definition demo_columns :: "string list" where
  "demo_columns = [''id'', ''name'', ''value'']"

definition demo_parser :: "string parser" where
  "demo_parser i n =
     Inr [''id'' \<mapsto> py_str i, ''name'' \<mapsto> n, ''value'' \<mapsto> py_str (i * 10), ''extra'' \<mapsto> ''x'']"

text \<open>The same parser, raising on the app with id 4.\<close>

definition failing_parser :: "string parser" where
  "failing_parser i n = (if i = 4 then Inl (Raised ''KeyError'') else demo_parser i n)"

fun cell_text :: "string cell \<Rightarrow> string" where
  "cell_text (Str x) = x"
| "cell_text (Val v) = v"

fun join_commas :: "string list \<Rightarrow> string" where
  "join_commas [] = []"
| "join_commas [x] = x"
| "join_commas (x # y # zs) = x @ '','' @ join_commas (y # zs)"

definition demo_format :: "string csv_format" where
  "demo_format cells = join_commas (map cell_text cells)"

definition empty_fs :: fsys where
  "empty_fs = \<lparr>files = (\<lambda>p. None), history = []\<rparr>"

text \<open>A file system as the notebook prepares it: the index reset, the data file with its
  header.\<close>

definition fresh_fs :: fsys where
  "fresh_fs =
     prepare_data_file demo_format ''d'' ''data.csv'' 0 demo_columns
       (reset_index ''d'' ''idx.txt'' empty_fs)"

text \<open>The file system after a run over the first four apps: the index file holds 4.\<close>

definition fs_at_4 :: fsys where
  "fs_at_4 =
     snd (process_batches demo_apps demo_format demo_parser demo_apps ''d'' ''data.csv''
            ''idx.txt'' demo_columns 0 4 2 fresh_fs)"

text \<open>Another list of apps, to pass as the argument while the module-level list is
  \<open>demo_apps\<close>.\<close>

definition other_apps :: "entity list" where
  "other_apps = [\<lparr>appid = 10, name = ''X''\<rparr>, \<lparr>appid = 20, name = ''Y''\<rparr>]"

text \<open>Networks for the client: one that answers 404 to every call, one that answers 404
  once and then 200 with a JSON body, one that answers 429 twice and then 200, one whose
  first call raises
  \<^verbatim>\<open>requests.exceptions.SSLError\<close> and whose later calls answer 200.\<close>

definition answer_ok :: "string response" where
  "answer_ok = \<lparr>status_code = 200, json_body = Some ''{}''\<rparr>"

definition always_404 :: "string transport" where
  "always_404 url parameters k = Returns \<lparr>status_code = 404, json_body = None\<rparr>"

definition not_found_once :: "string transport" where
  "not_found_once url parameters k =
     (if k = 0 then Returns \<lparr>status_code = 404, json_body = None\<rparr> else Returns answer_ok)"

definition throttled_twice :: "string transport" where
  "throttled_twice url parameters k =
     (if k < 2 then Returns \<lparr>status_code = 429, json_body = None\<rparr> else Returns answer_ok)"

definition ssl_error_once :: "string transport" where
  "ssl_error_once url parameters k =
     (if k = 0 then Raises (Raised ''SSLError'') else Returns answer_ok)"

definition idle_client :: client where
  "idle_client = \<lparr>calls = 0, console = []\<rparr>"

section \<open>Properties\<close>

subsection \<open>Writing an integer and reading it back\<close>

lemma digit_char_props:
  assumes "d < 10"
  shows "is_digit (digit_char d)" and "digit_val (digit_char d) = d"
    and "\<not> is_space (digit_char d)"
    and "digit_char d \<noteq> CHR ''-''" and "digit_char d \<noteq> CHR ''+''"
proof -
  have oc: "(of_char (digit_char d) :: nat) = 48 + d"
    using assms by (simp add: digit_char_def)
  show "is_digit (digit_char d)" using assms by (simp add: is_digit_def oc)
  show "digit_val (digit_char d) = d" by (simp add: digit_val_def oc)
  show "\<not> is_space (digit_char d)" using assms by (simp add: is_space_def oc)
  have "(of_char (CHR ''-'') :: nat) = 45" and "(of_char (CHR ''+'') :: nat) = 43" by simp_all
  then show "digit_char d \<noteq> CHR ''-''" and "digit_char d \<noteq> CHR ''+''"
    using oc by force+
qed

lemma digits_all_digit: "list_all is_digit (digits n)"
proof (induction n rule: digits.induct)
  case (1 n)
  show ?case
  proof (cases "n < 10")
    case True
    then show ?thesis by (subst digits.simps) (simp add: digit_char_props)
  next
    case False
    with 1 show ?thesis by (subst digits.simps) (simp add: digit_char_props)
  qed
qed

lemma digits_not_Nil: "digits n \<noteq> []"
  by (subst digits.simps) simp

lemma py_digits_all_digit:
  "list_all is_digit cs \<Longrightarrow> py_digits acc cs = Some (foldl (\<lambda>a c. 10 * a + digit_val c) acc cs)"
  by (induction cs arbitrary: acc) simp_all

lemma py_nat_all_digit:
  assumes "list_all is_digit cs" and "cs \<noteq> []"
  shows "py_nat cs = Some (foldl (\<lambda>a c. 10 * a + digit_val c) 0 cs)"
proof (cases cs)
  case Nil
  with assms show ?thesis by simp
next
  case (Cons c cs')
  with assms show ?thesis by (simp add: py_nat_def py_digits_all_digit)
qed

lemma foldl_digits: "foldl (\<lambda>a c. 10 * a + digit_val c) 0 (digits n) = n"
proof (induction n rule: digits.induct)
  case (1 n)
  show ?case
  proof (cases "n < 10")
    case True
    then show ?thesis by (subst digits.simps) (simp add: digit_char_props)
  next
    case False
    with 1 show ?thesis by (subst digits.simps) (simp add: digit_char_props)
  qed
qed

lemma py_nat_digits: "py_nat (digits n) = Some n"
  by (simp add: py_nat_all_digit digits_all_digit digits_not_Nil foldl_digits)

lemma is_digit_not_space: "is_digit c \<Longrightarrow> \<not> is_space c"
  by (auto simp: is_digit_def is_space_def Let_def)

lemma strip_id:
  assumes "s \<noteq> []" and "\<not> is_space (hd s)" and "\<not> is_space (last s)"
  shows "strip s = s"
proof -
  have a: "dropWhile is_space s = s"
    using assms by (cases s) simp_all
  have "dropWhile is_space (rev s) = rev s"
    using assms by (cases "rev s") (simp_all add: hd_rev)
  with a show ?thesis by (simp add: strip_def)
qed

lemma digits_hd_last: "is_digit (hd (digits n))" "is_digit (last (digits n))"
  using digits_all_digit [of n] digits_not_Nil [of n]
  by (simp_all add: list_all_iff)

lemma is_digit_not_sign: "is_digit c \<Longrightarrow> c \<noteq> CHR ''-'' \<and> c \<noteq> CHR ''+''"
  by (auto simp: is_digit_def)

lemma py_int_digits: "py_int (digits n) = Some (int n)"
proof -
  have st: "strip (digits n) = digits n"
    by (rule strip_id) (simp_all add: digits_not_Nil digits_hd_last is_digit_not_space)
  obtain c cs where d: "digits n = c # cs"
    using digits_not_Nil [of n] by (cases "digits n") auto
  have "is_digit c" using digits_hd_last(1) [of n] d by simp
  then have "c \<noteq> CHR ''-''" "c \<noteq> CHR ''+''" using is_digit_not_sign by auto
  moreover have "strip (c # cs) = c # cs" using st d by simp
  moreover have "py_nat (c # cs) = Some n" using py_nat_digits [of n] d by simp
  ultimately show ?thesis by (simp add: py_int_def d)
qed

lemma py_int_minus_digits: "py_int (CHR ''-'' # digits n) = Some (- int n)"
proof -
  have sp: "\<not> is_space (CHR ''-'')" by (simp add: is_space_def)
  have st: "strip (CHR ''-'' # digits n) = CHR ''-'' # digits n"
    by (rule strip_id) (simp_all add: sp digits_not_Nil digits_hd_last is_digit_not_space)
  show ?thesis by (simp add: py_int_def st py_nat_digits)
qed

lemma py_int_py_str: "py_int (py_str i) = Some i"
  by (simp add: py_str_def py_int_digits py_int_minus_digits)

subsection \<open>Files after a write\<close>

lemma files_write_file [simp]:
  "files (write_file p ls s) = (files s)(p \<mapsto> ls)"
  by (simp add: write_file_def)

lemma history_write_file [simp]:
  "history (write_file p ls s) = history s @ [Wrote p ls]"
  by (simp add: write_file_def)

lemma files_append_file [simp]:
  "files (append_file p ls s) = (files s)(p \<mapsto> contents s p @ ls)"
  by (simp add: append_file_def)

lemma history_append_file [simp]:
  "history (append_file p ls s) = history s @ [Appended p ls]"
  by (simp add: append_file_def)

lemma contents_write_file [simp]:
  "contents (write_file p ls s) q = (if q = p then ls else contents s q)"
  by (simp add: contents_def)

lemma contents_append_file [simp]:
  "contents (append_file p ls s) q = (if q = p then contents s p @ ls else contents s q)"
  by (simp add: contents_def)

lemma get_index_written:
  "files s (os_path_join download_path index_filename) = Some [py_str i] \<Longrightarrow>
   get_index download_path index_filename s = Inr i"
  by (simp add: get_index_def readline_def py_int_py_str)

subsection \<open>Slices of the entity list\<close>

lemma slice_bound_nonneg: "0 \<le> k \<Longrightarrow> slice_bound n k = min (nat k) n"
  by (simp add: slice_bound_def)

lemma py_slice_append:
  assumes "0 \<le> a" and "a \<le> b" and "b \<le> c"
  shows "py_slice xs a b @ py_slice xs b c = py_slice xs a c"
proof -
  define a' b' c' where "a' = min (nat a) (length xs)" and "b' = min (nat b) (length xs)"
    and "c' = min (nat c) (length xs)"
  have le: "a' \<le> b'" "b' \<le> c'"
    using assms by (auto simp: a'_def b'_def c'_def)
  have "take (c' - a') (drop a' xs) = take ((b' - a') + (c' - b')) (drop a' xs)"
    using le by simp
  also have "\<dots> = take (b' - a') (drop a' xs) @ take (c' - b') (drop (b' - a') (drop a' xs))"
    by (rule take_add)
  also have "drop (b' - a') (drop a' xs) = drop b' xs"
    using le by simp
  finally show ?thesis
    using assms by (simp add: py_slice_def Let_def slice_bound_nonneg a'_def b'_def c'_def)
qed

lemma length_py_slice:
  assumes "0 \<le> a" and "a \<le> b" and "b \<le> int (length xs)"
  shows "length (py_slice xs a b) = nat (b - a)"
proof -
  have na: "min (nat a) (length xs) = nat a" and nb: "min (nat b) (length xs) = nat b"
    using assms by linarith+
  have "length (py_slice xs a b) = min (length xs - nat a) (nat b - nat a)"
    using assms by (simp add: py_slice_def Let_def slice_bound_nonneg na nb)
  also have "\<dots> = nat (b - a)"
    using assms by linarith
  finally show ?thesis .
qed

lemma py_slice_same: "py_slice xs a a = []"
  by (simp add: py_slice_def Let_def)

subsection \<open>One batch\<close>

lemma iterrows_Inr_iff:
  "iterrows parser xs acc = Inr r \<longleftrightarrow>
     (\<exists>r'. r = acc @ r' \<and> list_all2 (\<lambda>e d. parser (appid e) (name e) = Inr d) xs r')"
proof (induction xs arbitrary: acc)
  case Nil
  show ?case by auto
next
  case (Cons x xs)
  show ?case
  proof (cases "parser (appid x) (name x)")
    case (Inl e)
    then show ?thesis by (auto simp: list_all2_Cons1)
  next
    case (Inr d)
    then show ?thesis by (auto simp: Cons.IH list_all2_Cons1)
  qed
qed

lemma iterrows_raises:
  "e \<in> set xs \<Longrightarrow> parser (appid e) (name e) = Inl x \<Longrightarrow>
   \<exists>e' x'. e' \<in> set xs \<and> parser (appid e') (name e') = Inl x' \<and> iterrows parser xs acc = Inl x'"
proof (induction xs arbitrary: acc)
  case Nil
  then show ?case by simp
next
  case (Cons y ys)
  show ?case
  proof (cases "parser (appid y) (name y)")
    case (Inl x')
    then show ?thesis by auto
  next
    case (Inr d)
    with Cons.prems have "e \<in> set ys" by auto
    from Cons.IH [OF this Cons.prems(2), of "acc @ [d]"] Inr show ?thesis by auto
  qed
qed

lemma get_app_data_Inr_iff:
  "get_app_data G start stop parser = Inr r \<longleftrightarrow>
     list_all2 (\<lambda>e d. parser (appid e) (name e) = Inr d) (py_slice G start stop) r"
  by (simp add: get_app_data_def iterrows_Inr_iff)

subsection \<open>The loop\<close>

lemma batch_loop_short:
  "length bs < 2 \<Longrightarrow> batch_loop G fmt parser dp df ixf cols bs s = (None, s)"
  by (cases bs) auto

lemma batch_loop_append:
  "batch_loop G fmt parser dp df ixf cols (xs @ [m]) s = (r, s1) \<Longrightarrow>
   batch_loop G fmt parser dp df ixf cols (xs @ m # ys) s =
     (case r of None \<Rightarrow> batch_loop G fmt parser dp df ixf cols (m # ys) s1
              | Some e \<Rightarrow> (Some e, s1))"
proof (induction xs arbitrary: s)
  case Nil
  then show ?case by auto
next
  case (Cons x xs)
  show ?case
  proof (cases xs)
    case Nil
    with Cons.prems show ?thesis by (auto split: sum.splits)
  next
    case (Cons x' xs')
    with Cons.prems Cons.IH show ?thesis by (auto split: sum.splits simp: Let_def)
  qed
qed

subsection \<open>Preparing the sink\<close>

text \<open>
  C7. With index 0, \<^verbatim>\<open>prepare_data_file\<close> truncates or creates the data file and writes
  the header row of the declared columns, and nothing else; with any other index it leaves
  the file system as it was: no file is truncated and no write is made.
\<close>

theorem prepare_data_file_effect:
  "(index = 0 \<longrightarrow>
      files (prepare_data_file fmt download_path filename index columns s)
        = (files s)(os_path_join download_path filename \<mapsto> [fmt (map Str columns)])
      \<and> history (prepare_data_file fmt download_path filename index columns s)
        = history s @ [Wrote (os_path_join download_path filename) [fmt (map Str columns)]])
   \<and> (index \<noteq> 0 \<longrightarrow> prepare_data_file fmt download_path filename index columns s = s)"
  by (simp add: prepare_data_file_def header_row_def)

theorem prepare_data_file_effect_witness:
  "files (prepare_data_file demo_format ''d'' ''data.csv'' 0 demo_columns
       \<lparr>files = [''d/data.csv'' \<mapsto> [''old header'', ''old row'']], history = []\<rparr>) ''d/data.csv''
     = Some [''id,name,value'']
   \<and> prepare_data_file demo_format ''d'' ''data.csv'' 5 demo_columns
       \<lparr>files = [''d/data.csv'' \<mapsto> [''old header'', ''old row'']], history = []\<rparr>
     = \<lparr>files = [''d/data.csv'' \<mapsto> [''old header'', ''old row'']], history = []\<rparr>"
proof -
  have p: "os_path_join ''d'' ''data.csv'' = ''d/data.csv''"
    by (simp add: os_path_join_def)
  show ?thesis
    using prepare_data_file_effect
            [of 0 demo_format "''d''" "''data.csv''" demo_columns
                "\<lparr>files = [''d/data.csv'' \<mapsto> [''old header'', ''old row'']], history = []\<rparr>"]
          prepare_data_file_effect
            [of 5 demo_format "''d''" "''data.csv''" demo_columns
                "\<lparr>files = [''d/data.csv'' \<mapsto> [''old header'', ''old row'']], history = []\<rparr>"]
    by (simp add: p demo_format_def demo_columns_def)
qed

subsection \<open>What a run of the loop leaves in the files\<close>

lemma truncating_writes_append:
  "truncating_writes p (es @ fs) = truncating_writes p es @ truncating_writes p fs"
  by (induction p es rule: truncating_writes.induct) simp_all

lemma batch_loop_rows:
  "sorted bs \<Longrightarrow> bs \<noteq> [] \<Longrightarrow> 0 \<le> hd bs \<Longrightarrow>
    batch_loop G fmt parser dp df ixf cols bs s = (None, s') \<Longrightarrow>
    os_path_join dp df \<noteq> os_path_join dp ixf \<Longrightarrow>
    \<exists>recs. list_all2 (\<lambda>e d. parser (appid e) (name e) = Inr d) (py_slice G (hd bs) (last bs)) recs
      \<and> contents s' (os_path_join dp df)
          = contents s (os_path_join dp df) @ map (\<lambda>d. fmt (dict_to_list cols d)) recs"
proof (induction G fmt parser dp df ixf cols bs s rule: batch_loop.induct)
  case (1 G fmt parser dp df ixf cols start stop rest s)
  from "1.prems"(4) obtain app_data where
    ad: "get_app_data G start stop parser = Inr app_data"
    by (auto split: sum.splits)
  define s2 where "s2 = write_file (os_path_join dp ixf) [py_str stop]
      (append_file (os_path_join dp df) (map (\<lambda>d. fmt (dict_to_list cols d)) app_data) s)"
  have run: "batch_loop G fmt parser dp df ixf cols (stop # rest) s2 = (None, s')"
    using "1.prems"(4) ad by (simp add: s2_def Let_def)
  note distinct_paths = "1.prems"(5)
  have ord: "start \<le> stop" "sorted (stop # rest)" "0 \<le> start" "stop \<le> last (stop # rest)"
    using "1.prems"(1,3) by auto
  have "\<exists>recs. list_all2 (\<lambda>e d. parser (appid e) (name e) = Inr d)
            (py_slice G (hd (stop # rest)) (last (stop # rest))) recs
      \<and> contents s' (os_path_join dp df)
          = contents s2 (os_path_join dp df) @ map (\<lambda>d. fmt (dict_to_list cols d)) recs"
    using "1.IH" [OF ad refl refl refl refl, folded s2_def] ord run distinct_paths
    by simp
  then obtain recs where
    r1: "list_all2 (\<lambda>e d. parser (appid e) (name e) = Inr d)
           (py_slice G stop (last (stop # rest))) recs"
    and r2: "contents s' (os_path_join dp df)
          = contents s2 (os_path_join dp df) @ map (\<lambda>d. fmt (dict_to_list cols d)) recs"
    by auto
  have c2: "contents s2 (os_path_join dp df)
      = contents s (os_path_join dp df) @ map (\<lambda>d. fmt (dict_to_list cols d)) app_data"
    using distinct_paths by (simp add: s2_def)
  have "list_all2 (\<lambda>e d. parser (appid e) (name e) = Inr d)
          (py_slice G start stop @ py_slice G stop (last (stop # rest))) (app_data @ recs)"
    using ad r1 by (simp add: get_app_data_Inr_iff list_all2_appendI)
  then have "list_all2 (\<lambda>e d. parser (appid e) (name e) = Inr d)
          (py_slice G start (last (stop # rest))) (app_data @ recs)"
    using ord by (simp add: py_slice_append)
  with r2 c2 show ?case
    by (intro exI [of _ "app_data @ recs"]) simp
qed (simp_all add: py_slice_same)

lemma batch_loop_index_file:
  "batch_loop G fmt parser dp df ixf cols bs s = (None, s') \<Longrightarrow> 2 \<le> length bs \<Longrightarrow>
   files s' (os_path_join dp ixf) = Some [py_str (last bs)]"
proof (induction G fmt parser dp df ixf cols bs s rule: batch_loop.induct)
  case (1 G fmt parser dp df ixf cols start stop rest s)
  from "1.prems"(1) obtain app_data where
    ad: "get_app_data G start stop parser = Inr app_data"
    by (auto split: sum.splits)
  define s2 where "s2 = write_file (os_path_join dp ixf) [py_str stop]
      (append_file (os_path_join dp df) (map (\<lambda>d. fmt (dict_to_list cols d)) app_data) s)"
  have run: "batch_loop G fmt parser dp df ixf cols (stop # rest) s2 = (None, s')"
    using "1.prems"(1) ad by (simp add: s2_def Let_def)
  show ?case
  proof (cases rest)
    case Nil
    with run have "s' = s2" by simp
    then show ?thesis by (simp add: s2_def Nil)
  next
    case (Cons r rs)
    with "1.IH" [OF ad refl refl refl refl, folded s2_def] run show ?thesis
      by (simp add: s2_def)
  qed
qed simp_all

lemma batch_loop_checkpoints:
  "batch_loop G fmt parser dp df ixf cols bs s = (r, s') \<Longrightarrow>
   \<exists>k. k \<le> length (tl bs) \<and> (r = None \<longrightarrow> k = length (tl bs))
     \<and> truncating_writes (os_path_join dp ixf) (history s')
         = truncating_writes (os_path_join dp ixf) (history s)
           @ map (\<lambda>stop. [py_str stop]) (take k (tl bs))"
proof (induction G fmt parser dp df ixf cols bs s rule: batch_loop.induct)
  case (1 G fmt parser dp df ixf cols start stop rest s)
  show ?case
  proof (cases "get_app_data G start stop parser")
    case (Inl e)
    with "1.prems" have "r = Some e" "s' = s" by auto
    then show ?thesis by (intro exI [of _ 0]) simp
  next
    case (Inr app_data)
    define s2 where "s2 = write_file (os_path_join dp ixf) [py_str stop]
      (append_file (os_path_join dp df) (map (\<lambda>d. fmt (dict_to_list cols d)) app_data) s)"
    have run: "batch_loop G fmt parser dp df ixf cols (stop # rest) s2 = (r, s')"
      using "1.prems" Inr by (simp add: s2_def Let_def)
    from "1.IH" [OF Inr refl refl refl refl, folded s2_def, OF run]
    obtain k where k: "k \<le> length rest" "r = None \<longrightarrow> k = length rest"
      "truncating_writes (os_path_join dp ixf) (history s')
         = truncating_writes (os_path_join dp ixf) (history s2)
           @ map (\<lambda>stop. [py_str stop]) (take k rest)"
      by auto
    have h2: "truncating_writes (os_path_join dp ixf) (history s2)
        = truncating_writes (os_path_join dp ixf) (history s) @ [[py_str stop]]"
      by (simp add: s2_def truncating_writes_append)
    from k h2 show ?thesis
      by (intro exI [of _ "Suc k"]) simp
  qed
qed auto

subsection \<open>The batch boundaries\<close>

lemma arange_below:
  assumes "1 \<le> step" and "i < nat (- ((start - stop) div step))"
  shows "start + int i * step < (stop :: int)"
proof -
  define q where "q = (start - stop) div step"
  have "int i + 1 \<le> - q"
    using assms(2) by (simp add: q_def)
  then have "(int i + 1) * step \<le> (- q) * step"
    using assms(1) by (intro mult_right_mono) simp_all
  moreover have "start - stop = q * step + (start - stop) mod step"
    by (simp add: q_def)
  moreover have "(start - stop) mod step < step"
    using assms(1) by simp
  ultimately show ?thesis
    by (simp add: algebra_simps)
qed

lemma batch_points_pos:
  assumes "1 \<le> batchsize"
  shows "batch_points app_list begin end batchsize =
     Inr (map (\<lambda>i. begin + int i * batchsize)
            [0..<nat (- ((begin - effective_end app_list end) div batchsize))]
          @ [effective_end app_list end])"
  using assms by (simp add: batch_points_def np_arange_def Let_def)

lemma batch_points_sorted:
  assumes "1 \<le> batchsize" and "batch_points app_list begin end batchsize = Inr bs"
  shows "sorted_wrt (<) bs"
proof -
  define e where "e = effective_end app_list end"
  define m where "m = nat (- ((begin - e) div batchsize))"
  have bs: "bs = map (\<lambda>i. begin + int i * batchsize) [0..<m] @ [e]"
    using assms batch_points_pos [OF assms(1), of app_list "begin" "end"]
    by (simp add: e_def m_def)
  have "sorted_wrt (<) (map (\<lambda>i. begin + int i * batchsize) [0..<m])"
    using assms(1) by (simp add: sorted_wrt_map sorted_wrt_upt)
  moreover have "\<forall>x \<in> set (map (\<lambda>i. begin + int i * batchsize) [0..<m]). x < e"
    using arange_below [OF assms(1), of _ "begin" e] by (auto simp: m_def)
  ultimately show ?thesis
    by (simp add: bs sorted_wrt_append)
qed

lemma batch_points_ends:
  assumes "1 \<le> batchsize" and "batch_points app_list begin end batchsize = Inr bs"
  shows "bs \<noteq> []" and "last bs = effective_end app_list end"
    and "begin < effective_end app_list end \<Longrightarrow> hd bs = begin"
    and "effective_end app_list end \<le> begin \<Longrightarrow> bs = [effective_end app_list end]"
proof -
  define e where "e = effective_end app_list end"
  define m where "m = nat (- ((begin - e) div batchsize))"
  have bs: "bs = map (\<lambda>i. begin + int i * batchsize) [0..<m] @ [e]"
    using assms batch_points_pos [OF assms(1), of app_list "begin" "end"]
    by (simp add: e_def m_def)
  show "bs \<noteq> []" and "last bs = effective_end app_list end"
    by (simp_all add: bs e_def)
  show "hd bs = begin" if "begin < effective_end app_list end"
  proof -
    have "(begin - e) div batchsize < 0"
      using that assms(1) by (simp add: e_def div_neg_pos_less0)
    then have "0 < m" by (simp add: m_def)
    then show ?thesis by (simp add: bs upt_conv_Cons)
  qed
  show "bs = [effective_end app_list end]" if "effective_end app_list end \<le> begin"
  proof -
    have "0 \<le> (begin - e) div batchsize"
      using that assms(1) by (simp add: e_def pos_imp_zdiv_nonneg_iff)
    then have "m = 0" by (simp add: m_def)
    then show ?thesis by (simp add: bs e_def)
  qed
qed

lemma batch_points_resume:
  assumes "1 \<le> batchsize" and "batch_points app_list begin end batchsize = Inr bs"
    and "k < length bs"
  shows "batch_points app_list (bs ! k) end batchsize = Inr (drop k bs)"
proof -
  define e where "e = effective_end app_list end"
  define m where "m = nat (- ((begin - e) div batchsize))"
  define f where "f = (\<lambda>i. begin + int i * batchsize)"
  have bs: "bs = map f [0..<m] @ [e]"
    using assms batch_points_pos [OF assms(1), of app_list "begin" "end"]
    by (simp add: e_def m_def f_def)
  have km: "k \<le> m" using assms(3) by (simp add: bs)
  show ?thesis
  proof (cases "k < m")
    case True
    then have nth: "bs ! k = begin + int k * batchsize"
      by (simp add: bs nth_append f_def)
    have "(begin + int k * batchsize - e) div batchsize = (begin - e) div batchsize + int k"
    proof -
      have nz: "batchsize \<noteq> 0" using assms(1) by simp
      have "(begin + int k * batchsize - e) div batchsize
          = ((begin - e) + int k * batchsize) div batchsize"
        by (simp add: algebra_simps)
      also have "\<dots> = int k + (begin - e) div batchsize"
        using nz by (rule div_mult_self1)
      finally show ?thesis by simp
    qed
    then have m': "nat (- ((bs ! k - e) div batchsize)) = m - k"
      using True by (simp add: nth m_def)
    have "map (\<lambda>i. bs ! k + int i * batchsize) [0..<m - k] = map f [k..<m]"
    proof -
      have "[k..<m] = map (\<lambda>i. i + k) [0..<m - k]"
        using km by (simp add: map_add_upt)
      then have "map f [k..<m] = map f (map (\<lambda>i. i + k) [0..<m - k])"
        by (rule arg_cong)
      then have "map f [k..<m] = map (\<lambda>i. f (i + k)) [0..<m - k]"
        by (simp only: map_map o_def)
      then show ?thesis by (simp add: nth f_def algebra_simps)
    qed
    then have "batch_points app_list (bs ! k) end batchsize = Inr (map f [k..<m] @ [e])"
      using batch_points_pos [OF assms(1), of app_list "bs ! k" "end"] m'
      by (simp add: e_def)
    moreover have "drop k bs = map f [k..<m] @ [e]"
      using km by (simp add: bs drop_map)
    ultimately show ?thesis by simp
  next
    case False
    with km have k: "k = m" by simp
    then have nth: "bs ! k = e" by (simp add: bs nth_append)
    have "batch_points app_list e end batchsize = Inr [e]"
      using batch_points_pos [OF assms(1), of app_list e "end"] by (simp add: e_def)
    moreover have "drop k bs = [e]" by (simp add: bs k)
    ultimately show ?thesis by (simp add: nth)
  qed
qed

subsection \<open>Stopping and resuming\<close>

lemma batch_loop_prefix:
  assumes "k < length bs"
    and "batch_loop G fmt parser dp df ixf cols bs s = (None, s')"
  shows "fst (batch_loop G fmt parser dp df ixf cols (take (Suc k) bs) s) = None"
    and "batch_loop G fmt parser dp df ixf cols (drop k bs)
           (snd (batch_loop G fmt parser dp df ixf cols (take (Suc k) bs) s)) = (None, s')"
proof -
  obtain r s1 where pre: "batch_loop G fmt parser dp df ixf cols (take k bs @ [bs ! k]) s = (r, s1)"
    by (cases "batch_loop G fmt parser dp df ixf cols (take k bs @ [bs ! k]) s")
  have split: "bs = take k bs @ bs ! k # drop (Suc k) bs"
    using assms(1) by (simp add: id_take_nth_drop)
  have "batch_loop G fmt parser dp df ixf cols (take k bs @ bs ! k # drop (Suc k) bs) s =
     (case r of None \<Rightarrow> batch_loop G fmt parser dp df ixf cols (bs ! k # drop (Suc k) bs) s1
              | Some e \<Rightarrow> (Some e, s1))"
    using pre by (rule batch_loop_append)
  with split assms(2) have
    r: "r = None" and rest: "batch_loop G fmt parser dp df ixf cols (bs ! k # drop (Suc k) bs) s1 = (None, s')"
    by (cases r; simp)+
  have tk: "take (Suc k) bs = take k bs @ [bs ! k]"
    using assms(1) by (simp add: take_Suc_conv_app_nth)
  show "fst (batch_loop G fmt parser dp df ixf cols (take (Suc k) bs) s) = None"
    using pre r by (simp add: tk)
  show "batch_loop G fmt parser dp df ixf cols (drop k bs)
           (snd (batch_loop G fmt parser dp df ixf cols (take (Suc k) bs) s)) = (None, s')"
    using pre rest assms(1) by (simp add: tk Cons_nth_drop_Suc)
qed

lemma process_batches_points:
  "batch_points app_list begin end batchsize = Inr bs \<Longrightarrow>
   process_batches G fmt parser app_list dp df ixf cols begin end batchsize s
     = batch_loop G fmt parser dp df ixf cols bs s"
  by (simp add: process_batches_def)

lemma effective_end_explicit: "0 \<le> n \<Longrightarrow> effective_end app_list n = n"
  by (simp add: effective_end_def)

lemma process_batches_rows:
  assumes "1 \<le> batchsize" and "0 \<le> begin" and "begin \<le> n"
    and "os_path_join dp df \<noteq> os_path_join dp ixf"
    and "process_batches G fmt parser app_list dp df ixf cols begin n batchsize s = (None, s')"
  shows "\<exists>recs. list_all2 (\<lambda>e d. parser (appid e) (name e) = Inr d) (py_slice G begin n) recs
      \<and> contents s' (os_path_join dp df)
          = contents s (os_path_join dp df) @ map (\<lambda>d. fmt (dict_to_list cols d)) recs"
proof -
  obtain bs where bs: "batch_points app_list begin n batchsize = Inr bs"
    using batch_points_pos [OF assms(1)] by blast
  have e: "effective_end app_list n = n"
    using assms(2,3) by (simp add: effective_end_explicit)
  have "hd bs = begin"
    using batch_points_ends(3,4) [OF assms(1) bs] assms(3) e by (cases "begin < n") auto
  moreover have "last bs = n" "bs \<noteq> []"
    using batch_points_ends(1,2) [OF assms(1) bs] e by simp_all
  moreover have "sorted bs"
    using batch_points_sorted [OF assms(1) bs] by (simp add: strict_sorted_imp_sorted)
  moreover have "batch_loop G fmt parser dp df ixf cols bs s = (None, s')"
    using assms(5) by (simp add: process_batches_points [OF bs])
  ultimately show ?thesis
    using batch_loop_rows [of bs G fmt parser dp df ixf cols s s'] assms(2,4) by simp
qed

text \<open>
  C1. Resumability. A run over the list with an explicit end \<open>n\<close> that completes ends in
  the same file system (the same sink, the same checkpoint, the same writes in the same
  order) as the run stopped after any \<open>k\<close> completed batches and called again with
  \<open>begin\<close> set to the checkpoint read from the index file. One row per entity of
  \<open>[begin, n)\<close> is appended to the sink, in list order: none twice, none skipped. The
  module-level list is the list passed to \<^verbatim>\<open>process_batches\<close>, as in every call of
  the module.
\<close>

theorem resumability:
  assumes "1 \<le> batchsize" and "0 \<le> begin" and "begin \<le> n" and "n \<le> int (length app_list)"
    and "os_path_join dp df \<noteq> os_path_join dp ixf"
    and "batch_points app_list begin n batchsize = Inr batches"
    and "fst (process_batches app_list fmt parser app_list dp df ixf cols begin n batchsize s) = None"
    and "k < length batches"
    and "0 < k \<or> get_index dp ixf s = Inr begin"
    and "s_k = snd (batch_loop app_list fmt parser dp df ixf cols (take (Suc k) batches) s)"
  shows "fst (batch_loop app_list fmt parser dp df ixf cols (take (Suc k) batches) s) = None
    \<and> get_index dp ixf s_k = Inr (batches ! k)
    \<and> process_batches app_list fmt parser app_list dp df ixf cols (batches ! k) n batchsize s_k
        = process_batches app_list fmt parser app_list dp df ixf cols begin n batchsize s
    \<and> (\<exists>recs. list_all2 (\<lambda>e d. parser (appid e) (name e) = Inr d) (py_slice app_list begin n) recs
          \<and> length recs = nat (n - begin)
          \<and> contents (snd (process_batches app_list fmt parser app_list dp df ixf cols
                              begin n batchsize s)) (os_path_join dp df)
              = contents s (os_path_join dp df) @ map (\<lambda>d. fmt (dict_to_list cols d)) recs)"
proof -
  obtain s' where full: "process_batches app_list fmt parser app_list dp df ixf cols
      begin n batchsize s = (None, s')"
    using assms(7) by (metis prod.collapse)
  have loop: "batch_loop app_list fmt parser dp df ixf cols batches s = (None, s')"
    using full by (simp add: process_batches_points [OF assms(6)])
  note pre = batch_loop_prefix [OF assms(8) loop]
  have completed: "batch_loop app_list fmt parser dp df ixf cols (take (Suc k) batches) s = (None, s_k)"
    using pre(1) assms(10) by (metis prod.collapse)
  have idx: "get_index dp ixf s_k = Inr (batches ! k)"
  proof (cases "0 < k")
    case True
    have "files s_k (os_path_join dp ixf) = Some [py_str (last (take (Suc k) batches))]"
      using completed True assms(8) by (intro batch_loop_index_file) simp_all
    moreover have "last (take (Suc k) batches) = batches ! k"
      using assms(8) by (simp add: take_Suc_conv_app_nth)
    ultimately show ?thesis by (simp add: get_index_written)
  next
    case False
    then have k0: "k = 0" by simp
    then have "s_k = s"
      using assms(10) by (simp add: batch_loop_short)
    moreover have "batches ! 0 = begin"
      using batch_points_ends [OF assms(1,6)] assms(2,3) effective_end_explicit [of n app_list]
      by (cases "begin < n") (auto simp: hd_conv_nth)
    ultimately show ?thesis using assms(9) k0 by simp
  qed
  have "process_batches app_list fmt parser app_list dp df ixf cols (batches ! k) n batchsize s_k
      = batch_loop app_list fmt parser dp df ixf cols (drop k batches) s_k"
    using batch_points_resume [OF assms(1,6,8)] by (rule process_batches_points)
  then have resume: "process_batches app_list fmt parser app_list dp df ixf cols
      (batches ! k) n batchsize s_k = (None, s')"
    using pre(2) assms(10) by simp
  obtain recs where recs: "list_all2 (\<lambda>e d. parser (appid e) (name e) = Inr d)
        (py_slice app_list begin n) recs"
    and sink: "contents s' (os_path_join dp df)
        = contents s (os_path_join dp df) @ map (\<lambda>d. fmt (dict_to_list cols d)) recs"
    using process_batches_rows [OF assms(1,2,3,5) full] by blast
  have "length recs = length (py_slice app_list begin n)"
    using recs by (simp add: list_all2_lengthD)
  then have len: "length recs = nat (n - begin)"
    using assms(2,3,4) by (simp add: length_py_slice)
  show ?thesis
    using pre(1) idx resume full recs len sink by auto
qed


theorem resumability_witness:
  "get_index ''d'' ''idx.txt''
      (snd (batch_loop demo_apps demo_format demo_parser ''d'' ''data.csv'' ''idx.txt''
              demo_columns [0, 2, 4] fresh_fs)) = Inr 4
   \<and> process_batches demo_apps demo_format demo_parser demo_apps ''d'' ''data.csv'' ''idx.txt''
        demo_columns 4 5 2
        (snd (batch_loop demo_apps demo_format demo_parser ''d'' ''data.csv'' ''idx.txt''
                demo_columns [0, 2, 4] fresh_fs))
      = process_batches demo_apps demo_format demo_parser demo_apps ''d'' ''data.csv''
          ''idx.txt'' demo_columns 0 5 2 fresh_fs
   \<and> contents (snd (process_batches demo_apps demo_format demo_parser demo_apps ''d''
                      ''data.csv'' ''idx.txt'' demo_columns 0 5 2 fresh_fs)) ''d/data.csv''
      = [''id,name,value'', ''1,A,10'', ''2,B,20'', ''3,C,30'', ''4,D,40'', ''5,E,50'']"
proof -
  have len: "5 \<le> int (length demo_apps)"
    by (simp add: demo_apps_def)
  have paths: "os_path_join ''d'' ''data.csv'' \<noteq> os_path_join ''d'' ''idx.txt''"
    by (simp add: os_path_join_def)
  have pts: "batch_points demo_apps 0 5 2 = Inr [0, 2, 4, 5]"
    by code_simp
  have ok: "fst (process_batches demo_apps demo_format demo_parser demo_apps ''d'' ''data.csv''
      ''idx.txt'' demo_columns 0 5 2 fresh_fs) = None"
    by code_simp
  have sink: "contents (snd (process_batches demo_apps demo_format demo_parser demo_apps ''d''
      ''data.csv'' ''idx.txt'' demo_columns 0 5 2 fresh_fs)) ''d/data.csv''
      = [''id,name,value'', ''1,A,10'', ''2,B,20'', ''3,C,30'', ''4,D,40'', ''5,E,50'']"
    by code_simp
  have "fst (batch_loop demo_apps demo_format demo_parser ''d'' ''data.csv'' ''idx.txt''
           demo_columns (take (Suc 2) [0, 2, 4, 5]) fresh_fs) = None
    \<and> get_index ''d'' ''idx.txt''
         (snd (batch_loop demo_apps demo_format demo_parser ''d'' ''data.csv'' ''idx.txt''
                 demo_columns (take (Suc 2) [0, 2, 4, 5]) fresh_fs)) = Inr ([0, 2, 4, 5] ! 2)
    \<and> process_batches demo_apps demo_format demo_parser demo_apps ''d'' ''data.csv'' ''idx.txt''
         demo_columns ([0, 2, 4, 5] ! 2) 5 2
         (snd (batch_loop demo_apps demo_format demo_parser ''d'' ''data.csv'' ''idx.txt''
                 demo_columns (take (Suc 2) [0, 2, 4, 5]) fresh_fs))
        = process_batches demo_apps demo_format demo_parser demo_apps ''d'' ''data.csv''
            ''idx.txt'' demo_columns 0 5 2 fresh_fs
    \<and> (\<exists>recs. list_all2 (\<lambda>e d. demo_parser (appid e) (name e) = Inr d)
                  (py_slice demo_apps 0 5) recs
          \<and> length recs = nat (5 - 0)
          \<and> contents (snd (process_batches demo_apps demo_format demo_parser demo_apps ''d''
                              ''data.csv'' ''idx.txt'' demo_columns 0 5 2 fresh_fs))
                (os_path_join ''d'' ''data.csv'')
              = contents fresh_fs (os_path_join ''d'' ''data.csv'')
                @ map (\<lambda>d. demo_format (dict_to_list demo_columns d)) recs)"
    by (rule resumability [OF _ _ _ len paths pts ok]) simp_all
  then show ?thesis
    using sink by simp
qed

subsection \<open>A parser that raises\<close>

text \<open>
  C4. When the first \<open>k\<close> batches have completed and the parser raises on some entity of
  the next batch \<open>[batches[k], batches[k+1])\<close>, \<^verbatim>\<open>process_batches\<close> ends with an
  exception the parser raised on an entity of that batch, and the file system is the one
  the \<open>k\<close> completed batches left: no row of the failed batch is in the sink, no write
  was made for it, and the index file holds the stop of the last completed batch.
\<close>

theorem atomic_batch_on_parser_failure:
  assumes "batch_points app_list begin end batchsize = Inr batches"
    and "Suc k < length batches"
    and "fst (batch_loop G fmt parser dp df ixf cols (take (Suc k) batches) s) = None"
    and "s_k = snd (batch_loop G fmt parser dp df ixf cols (take (Suc k) batches) s)"
    and "e \<in> set (py_slice G (batches ! k) (batches ! Suc k))"
    and "parser (appid e) (name e) = Inl x"
  shows "(\<exists>e' x'. e' \<in> set (py_slice G (batches ! k) (batches ! Suc k))
            \<and> parser (appid e') (name e') = Inl x'
            \<and> process_batches G fmt parser app_list dp df ixf cols begin end batchsize s
                = (Some x', s_k))
    \<and> (0 < k \<longrightarrow> files s_k (os_path_join dp ixf) = Some [py_str (batches ! k)]
                \<and> get_index dp ixf s_k = Inr (batches ! k))"
proof -
  have pre: "batch_loop G fmt parser dp df ixf cols (take k batches @ [batches ! k]) s = (None, s_k)"
    using assms(2,3,4) by (simp add: take_Suc_conv_app_nth) (metis prod.collapse)
  have split: "batches = take k batches @ batches ! k # batches ! Suc k # drop (Suc (Suc k)) batches"
    using assms(2) by (simp add: id_take_nth_drop Cons_nth_drop_Suc)
  obtain e' x' where raised: "e' \<in> set (py_slice G (batches ! k) (batches ! Suc k))"
      "parser (appid e') (name e') = Inl x'"
      "get_app_data G (batches ! k) (batches ! Suc k) parser = Inl x'"
    using iterrows_raises [where parser = parser and acc = "[]", OF assms(5,6)]
    by (auto simp: get_app_data_def)
  have "batch_loop G fmt parser dp df ixf cols
          (take k batches @ batches ! k # batches ! Suc k # drop (Suc (Suc k)) batches) s
      = batch_loop G fmt parser dp df ixf cols
          (batches ! k # batches ! Suc k # drop (Suc (Suc k)) batches) s_k"
    using batch_loop_append [OF pre] by simp
  also have "\<dots> = (Some x', s_k)"
    using raised(3) by simp
  finally have "process_batches G fmt parser app_list dp df ixf cols begin end batchsize s
      = (Some x', s_k)"
    using split by (simp add: process_batches_points [OF assms(1)])
  moreover have "files s_k (os_path_join dp ixf) = Some [py_str (batches ! k)]" if "0 < k"
  proof -
    have "files s_k (os_path_join dp ixf) = Some [py_str (last (take k batches @ [batches ! k]))]"
      using pre that assms(2) by (intro batch_loop_index_file) simp_all
    then show ?thesis by simp
  qed
  ultimately show ?thesis
    using raised(1,2) by (auto simp: get_index_written)
qed

theorem atomic_batch_on_parser_failure_witness:
  "process_batches demo_apps demo_format failing_parser demo_apps ''d'' ''data.csv'' ''idx.txt''
      demo_columns 0 5 2 fresh_fs
     = (Some (Raised ''KeyError''),
        snd (batch_loop demo_apps demo_format failing_parser ''d'' ''data.csv'' ''idx.txt''
               demo_columns [0, 2] fresh_fs))
   \<and> contents (snd (process_batches demo_apps demo_format failing_parser demo_apps ''d''
                      ''data.csv'' ''idx.txt'' demo_columns 0 5 2 fresh_fs)) ''d/data.csv''
      = [''id,name,value'', ''1,A,10'', ''2,B,20'']
   \<and> get_index ''d'' ''idx.txt''
        (snd (process_batches demo_apps demo_format failing_parser demo_apps ''d''
                ''data.csv'' ''idx.txt'' demo_columns 0 5 2 fresh_fs)) = Inr 2"
proof -
  have pts: "batch_points demo_apps 0 5 2 = Inr [0, 2, 4, 5]"
    by code_simp
  have ok: "fst (batch_loop demo_apps demo_format failing_parser ''d'' ''data.csv'' ''idx.txt''
      demo_columns (take (Suc 1) [0, 2, 4, 5]) fresh_fs) = None"
    by code_simp
  have mem: "\<lparr>appid = 4, name = ''D''\<rparr> \<in> set (py_slice demo_apps ([0, 2, 4, 5] ! 1) ([0, 2, 4, 5] ! Suc 1))"
    by code_simp
  have bad: "failing_parser (appid \<lparr>appid = 4, name = ''D''\<rparr>) (name \<lparr>appid = 4, name = ''D''\<rparr>)
      = Inl (Raised ''KeyError'')"
    by (simp add: failing_parser_def)
  have only: "\<And>e' x'. e' \<in> set (py_slice demo_apps 2 4) \<Longrightarrow>
      failing_parser (appid e') (name e') = Inl x' \<Longrightarrow> x' = Raised ''KeyError''"
    by (auto simp: failing_parser_def demo_parser_def split: if_splits)
  have sink: "contents (snd (batch_loop demo_apps demo_format failing_parser ''d'' ''data.csv''
      ''idx.txt'' demo_columns [0, 2] fresh_fs)) ''d/data.csv''
      = [''id,name,value'', ''1,A,10'', ''2,B,20'']"
    by code_simp
  from atomic_batch_on_parser_failure [OF pts _ ok refl mem bad]
  show ?thesis
    using only sink by (auto simp: numeral_2_eq_2)
qed

subsection \<open>The end index and the entity list of a run\<close>

text \<open>With the sentinel, a run that completes leaves \<open>len(app_list) + 1\<close> in the index
  file.\<close>

lemma sentinel_checkpoint:
  assumes "1 \<le> batchsize" and "begin \<le> int (length app_list)"
    and "fst (process_batches G fmt parser app_list dp df ixf cols begin (- 1) batchsize s) = None"
  shows "get_index dp ixf
           (snd (process_batches G fmt parser app_list dp df ixf cols begin (- 1) batchsize s))
         = Inr (int (length app_list) + 1)"
proof -
  obtain bs where bs: "batch_points app_list begin (- 1) batchsize = Inr bs"
    using batch_points_pos [OF assms(1)] by blast
  have e: "effective_end app_list (- 1) = int (length app_list) + 1"
    by (simp add: effective_end_def)
  obtain s' where loop: "batch_loop G fmt parser dp df ixf cols bs s = (None, s')"
    using assms(3) by (simp add: process_batches_points [OF bs]) (metis prod.collapse)
  have "hd bs = begin" "last bs = int (length app_list) + 1" "bs \<noteq> []"
    using batch_points_ends [OF assms(1) bs] assms(2) e by simp_all
  then have "2 \<le> length bs"
    using assms(2) by (cases bs) (auto split: if_splits simp: Suc_le_eq)
  then have "files s' (os_path_join dp ixf) = Some [py_str (last bs)]"
    using loop by (intro batch_loop_index_file)
  then show ?thesis
    using \<open>last bs = int (length app_list) + 1\<close> loop
    by (simp add: process_batches_points [OF bs] get_index_written)
qed

text \<open>With an explicit end, the list passed to \<^verbatim>\<open>process_batches\<close> has no effect on the
  run.\<close>

lemma process_batches_ignores_argument:
  "end \<noteq> - 1 \<Longrightarrow>
   process_batches G fmt parser app_list dp df ixf cols begin end batchsize s
     = process_batches G fmt parser app_list' dp df ixf cols begin end batchsize s"
  by (simp add: process_batches_def batch_points_def effective_end_def)

text \<open>
  C3 (the code differs). With the sentinel \<open>end = -1\<close> on a list of five apps and batches
  of two, the batch points are 0, 2, 4, 6 and the completed run leaves 6 in the index file,
  where a run with \<open>end = len(app_list) = 5\<close> leaves 5.
\<close>

theorem sentinel_end_is_len_plus_one:
  "int (length demo_apps) = 5
   \<and> batch_points demo_apps 0 (- 1) 2 = Inr [0, 2, 4, 6]
   \<and> fst (process_batches demo_apps demo_format demo_parser demo_apps ''d'' ''data.csv''
            ''idx.txt'' demo_columns 0 (- 1) 2 fresh_fs) = None
   \<and> get_index ''d'' ''idx.txt''
        (snd (process_batches demo_apps demo_format demo_parser demo_apps ''d'' ''data.csv''
                ''idx.txt'' demo_columns 0 (- 1) 2 fresh_fs)) = Inr 6
   \<and> get_index ''d'' ''idx.txt''
        (snd (process_batches demo_apps demo_format demo_parser demo_apps ''d'' ''data.csv''
                ''idx.txt'' demo_columns 0 5 2 fresh_fs)) = Inr 5"
  by code_simp

text \<open>
  C8 (the code differs). With \<open>other_apps\<close> passed as \<open>app_list\<close> and \<open>demo_apps\<close> as the
  module-level list, the rows written for \<open>[0, 2)\<close> are those of the apps 1 and 2 of the
  module-level list, not of the apps 10 and 20 of the argument; with the same argument and
  an empty module-level list no row is written.
\<close>

theorem rows_come_from_module_level_list:
  "contents (snd (process_batches demo_apps demo_format demo_parser other_apps ''d''
                    ''data.csv'' ''idx.txt'' demo_columns 0 2 2 fresh_fs)) ''d/data.csv''
     = [''id,name,value'', ''1,A,10'', ''2,B,20'']
   \<and> contents (snd (process_batches other_apps demo_format demo_parser other_apps ''d''
                    ''data.csv'' ''idx.txt'' demo_columns 0 2 2 fresh_fs)) ''d/data.csv''
     = [''id,name,value'', ''10,X,100'', ''20,Y,200'']
   \<and> contents (snd (process_batches [] demo_format demo_parser other_apps ''d''
                    ''data.csv'' ''idx.txt'' demo_columns 0 2 2 fresh_fs)) ''d/data.csv''
     = [''id,name,value'']"
  by code_simp

subsection \<open>The HTTP client\<close>

lemma after_retries_0 [simp]: "after_retries url parameters 0 c = c"
  by (simp add: after_retries_def)

lemma after_retries_Suc:
  "after_retries url parameters (Suc m) c =
     after_retries url parameters m
       (c\<lparr>calls := calls c + 1,
          console := console c @ [Requested url parameters]
            @ [Printed ''No response, waiting 10 seconds...'', Slept 10, Printed ''Retrying.'']\<rparr>)"
  by (simp add: after_retries_def retry_events_def)

lemma calls_after_retries [simp]: "calls (after_retries url parameters m c) = calls c + m"
  by (simp add: after_retries_def)

text \<open>An exception of \<^verbatim>\<open>requests.get\<close>, whatever its class, reaches the caller as
  \<^verbatim>\<open>NameError\<close> after that one call.\<close>

lemma get_request_raises:
  assumes "need < frames" and "transport url parameters (calls c) = Raises e"
  shows "get_request need frames transport url parameters c
     = (Inl (NameError ''SSLError''),
        c\<lparr>calls := calls c + 1, console := console c @ [Requested url parameters]\<rparr>)"
proof -
  obtain f where "frames = Suc f" "\<not> f < need"
    using assms(1) by (cases frames) auto
  then show ?thesis using assms(2) by (simp add: Let_def)
qed

text \<open>As long as the answers have an error status and the stack has room, each call is
  followed by the wait and the next call.\<close>

lemma get_request_retries:
  "(\<forall>i<m. \<exists>r. transport url parameters (calls c + i) = Returns r \<and> \<not> truthy r) \<Longrightarrow>
   need + m \<le> frames \<Longrightarrow>
   get_request need frames transport url parameters c
     = get_request need (frames - m) transport url parameters (after_retries url parameters m c)"
proof (induction m arbitrary: c frames)
  case 0
  then show ?case by simp
next
  case (Suc m)
  obtain f where f: "frames = Suc f" "\<not> f < need" "need + m \<le> f"
    using Suc.prems(2) by (cases frames) auto
  obtain r where r: "transport url parameters (calls c) = Returns r" "\<not> truthy r"
    using Suc.prems(1) by force
  define c2 where "c2 = c\<lparr>calls := calls c + 1,
      console := console c @ [Requested url parameters]
        @ [Printed ''No response, waiting 10 seconds...'', Slept 10, Printed ''Retrying.'']\<rparr>"
  have step: "get_request need frames transport url parameters c
      = get_request need f transport url parameters c2"
    using f r by (simp add: Let_def c2_def)
  have "\<forall>i<m. \<exists>r. transport url parameters (calls c2 + i) = Returns r \<and> \<not> truthy r"
  proof (intro allI impI)
    fix i assume "i < m"
    then have "Suc i < Suc m" by simp
    with Suc.prems(1) have "\<exists>r. transport url parameters (calls c + Suc i) = Returns r \<and> \<not> truthy r"
      by blast
    then show "\<exists>r. transport url parameters (calls c2 + i) = Returns r \<and> \<not> truthy r"
      by (simp add: c2_def)
  qed
  from Suc.IH [OF this f(3)] step show ?case
    by (simp add: f(1) after_retries_Suc c2_def)
qed

lemma get_request_answer:
  assumes "\<forall>i<m. \<exists>r. transport url parameters (calls c + i) = Returns r \<and> \<not> truthy r"
    and "transport url parameters (calls c + m) = Returns r" and "truthy r"
    and "need + m < frames"
  shows "get_request need frames transport url parameters c
     = ((case json_body r of None \<Rightarrow> Inl JSONDecodeError | Some j \<Rightarrow> Inr j),
        \<lparr>calls = calls c + m + 1,
         console = console c @ concat (replicate m (retry_events url parameters))
                   @ [Requested url parameters]\<rparr>)"
proof -
  obtain f where f: "frames - m = Suc f" "\<not> f < need"
    using assms(4) by (cases "frames - m") auto
  have "get_request need frames transport url parameters c
      = get_request need (Suc f) transport url parameters (after_retries url parameters m c)"
    using get_request_retries [where transport = transport and url = url
        and parameters = parameters and c = c and m = m and need = need and frames = frames]
      assms(1,4) f(1) by simp
  also have "\<dots> = ((case json_body r of None \<Rightarrow> Inl JSONDecodeError | Some j \<Rightarrow> Inr j),
        \<lparr>calls = calls c + m + 1,
         console = console c @ concat (replicate m (retry_events url parameters))
                   @ [Requested url parameters]\<rparr>)"
    using f(2) assms(2,3) by (simp add: Let_def after_retries_def)
  finally show ?thesis .
qed

lemma get_request_exhausts:
  assumes "\<forall>i<frames - need. \<exists>r. transport url parameters (calls c + i) = Returns r \<and> \<not> truthy r"
    and "need \<le> frames"
  shows "get_request need frames transport url parameters c
     = (Inl (if need = 0 then RecursionError else NameError ''SSLError''),
        after_retries url parameters (frames - need) c)"
proof -
  have "get_request need frames transport url parameters c
      = get_request need (frames - (frames - need)) transport url parameters
          (after_retries url parameters (frames - need) c)"
    using get_request_retries [where transport = transport and url = url
        and parameters = parameters and c = c and m = "frames - need" and need = need
        and frames = frames] assms by simp
  also have "frames - (frames - need) = need"
    using assms(2) by simp
  also have "get_request need need transport url parameters
          (after_retries url parameters (frames - need) c)
      = (Inl (if need = 0 then RecursionError else NameError ''SSLError''),
         after_retries url parameters (frames - need) c)"
    by (cases need) simp_all
  finally show ?thesis .
qed

text \<open>
  C10 (the code differs). When the first call of \<^verbatim>\<open>requests.get\<close> raises an SSL error,
  \<^verbatim>\<open>get_request\<close>, called with a thousand frames left of which \<^verbatim>\<open>requests.get\<close> needs
  eleven, returns to its caller with \<^verbatim>\<open>NameError\<close> after that one call: nothing was
  printed, no wait was made and the request was not made again.
\<close>

theorem ssl_error_surfaces_as_name_error:
  "get_request 11 1000 ssl_error_once ''u'' None idle_client
     = (Inl (NameError ''SSLError''), \<lparr>calls = 1, console = [Requested ''u'' None]\<rparr>)"
  by code_simp

text \<open>
  C9, as the code has it. \<^verbatim>\<open>get_request\<close> never fails because of an HTTP error status. A
  response with a status in 400..599 is not true, so it takes the path of the missing
  response: the diagnostic, the 10 second wait and the same request again, with no count
  of the retries. When \<open>m\<close> such answers are followed by one with a status outside
  400..599 and the stack has room for the \<open>m\<close> nested calls, the function returns the
  body of that answer after \<open>m + 1\<close> requests and \<open>m\<close> waits. When every answer has such
  a status, the retries go on until the nested calls reach the recursion limit, and the
  caller gets \<^verbatim>\<open>RecursionError\<close>, or \<^verbatim>\<open>NameError\<close> when the limit is hit inside
  \<^verbatim>\<open>requests.get\<close>.
\<close>

theorem error_status_is_retried:
  "(\<forall>m r. (\<forall>i<m. \<exists>r'. transport url parameters (calls c + i) = Returns r'
                      \<and> 400 \<le> status_code r' \<and> status_code r' < 600) \<longrightarrow>
      transport url parameters (calls c + m) = Returns r \<longrightarrow>
      \<not> (400 \<le> status_code r \<and> status_code r < 600) \<longrightarrow>
      need + m < frames \<longrightarrow>
      get_request need frames transport url parameters c
        = ((case json_body r of None \<Rightarrow> Inl JSONDecodeError | Some j \<Rightarrow> Inr j),
           \<lparr>calls = calls c + m + 1,
            console = console c @ concat (replicate m (retry_events url parameters))
                      @ [Requested url parameters]\<rparr>))
   \<and> ((\<forall>i<frames - need. \<exists>r'. transport url parameters (calls c + i) = Returns r'
                      \<and> 400 \<le> status_code r' \<and> status_code r' < 600) \<longrightarrow>
      need \<le> frames \<longrightarrow>
      get_request need frames transport url parameters c
        = (Inl (if need = 0 then RecursionError else NameError ''SSLError''),
           after_retries url parameters (frames - need) c))"
proof (intro conjI allI impI)
  fix m r
  assume "\<forall>i<m. \<exists>r'. transport url parameters (calls c + i) = Returns r'
                      \<and> 400 \<le> status_code r' \<and> status_code r' < 600"
    and "transport url parameters (calls c + m) = Returns r"
    and "\<not> (400 \<le> status_code r \<and> status_code r < 600)"
    and "need + m < frames"
  then show "get_request need frames transport url parameters c
        = ((case json_body r of None \<Rightarrow> Inl JSONDecodeError | Some j \<Rightarrow> Inr j),
           \<lparr>calls = calls c + m + 1,
            console = console c @ concat (replicate m (retry_events url parameters))
                      @ [Requested url parameters]\<rparr>)"
    by (intro get_request_answer) (auto simp: truthy_def)
next
  assume "\<forall>i<frames - need. \<exists>r'. transport url parameters (calls c + i) = Returns r'
                      \<and> 400 \<le> status_code r' \<and> status_code r' < 600"
    and "need \<le> frames"
  then show "get_request need frames transport url parameters c
        = (Inl (if need = 0 then RecursionError else NameError ''SSLError''),
           after_retries url parameters (frames - need) c)"
    by (intro get_request_exhausts) (auto simp: truthy_def)
qed

theorem error_status_is_retried_witness:
  "get_request 11 1000 throttled_twice ''u'' None idle_client
     = (Inr ''{}'',
        \<lparr>calls = 3,
           console = [Requested ''u'' None, Printed ''No response, waiting 10 seconds...'',
                      Slept 10, Printed ''Retrying.'',
                      Requested ''u'' None, Printed ''No response, waiting 10 seconds...'',
                      Slept 10, Printed ''Retrying.'', Requested ''u'' None]\<rparr>)
   \<and> get_request 11 1000 always_404 ''u'' None idle_client
     = (Inl (NameError ''SSLError''), after_retries ''u'' None 989 idle_client)
   \<and> get_request 0 998 always_404 ''u'' None idle_client
     = (Inl RecursionError, after_retries ''u'' None 998 idle_client)"
proof -
  have a: "\<forall>i<2. \<exists>r'. throttled_twice ''u'' None (calls idle_client + i) = Returns r'
                      \<and> 400 \<le> status_code r' \<and> status_code r' < 600"
    by (simp add: throttled_twice_def idle_client_def)
  have b: "throttled_twice ''u'' None (calls idle_client + 2) = Returns answer_ok"
    by (simp add: throttled_twice_def idle_client_def)
  have c: "\<not> (400 \<le> status_code answer_ok \<and> status_code answer_ok < 600)"
    by (simp add: answer_ok_def)
  have d: "\<forall>i<1000 - 11. \<exists>r'. always_404 ''u'' None (calls idle_client + i) = Returns r'
                      \<and> 400 \<le> status_code r' \<and> status_code r' < 600"
    by (simp add: always_404_def idle_client_def)
  have e: "\<forall>i<998 - 0. \<exists>r'. always_404 ''u'' None (calls idle_client + i) = Returns r'
                      \<and> 400 \<le> status_code r' \<and> status_code r' < 600"
    by (simp add: always_404_def idle_client_def)
  note t = error_status_is_retried [of throttled_twice "''u''" None idle_client 11 1000]
  note n = error_status_is_retried [of always_404 "''u''" None idle_client 11 1000]
  note z = error_status_is_retried [of always_404 "''u''" None idle_client 0 998]
  have "get_request 11 1000 throttled_twice ''u'' None idle_client
     = ((case json_body answer_ok of None \<Rightarrow> Inl JSONDecodeError | Some j \<Rightarrow> Inr j),
        \<lparr>calls = calls idle_client + 2 + 1,
         console = console idle_client @ concat (replicate 2 (retry_events ''u'' None))
                   @ [Requested ''u'' None]\<rparr>)"
    using t a b c by simp
  moreover have "get_request 11 1000 always_404 ''u'' None idle_client
     = (Inl (NameError ''SSLError''), after_retries ''u'' None (1000 - 11) idle_client)"
    using n d by simp
  moreover have "get_request 0 998 always_404 ''u'' None idle_client
     = (Inl RecursionError, after_retries ''u'' None (998 - 0) idle_client)"
    using z e by simp
  ultimately show ?thesis
    by (simp add: idle_client_def answer_ok_def retry_events_def numeral_2_eq_2)
qed

text \<open>
  C9 as stated fails on a permanent error status. Answered 404 once and then 200,
  \<^verbatim>\<open>get_request\<close> waits, makes the request again and returns the body of the second
  answer. Answered 404 on every call, with a thousand frames left of which
  \<^verbatim>\<open>requests.get\<close> needs eleven, it makes 989 requests, each followed by the wait, before
  the recursion limit ends the run; it does not stop at the first 404.
\<close>

theorem error_status_is_retried_counterexample:
  "get_request 11 1000 not_found_once ''u'' None idle_client
     = (Inr ''{}'',
        \<lparr>calls = 2,
           console = [Requested ''u'' None, Printed ''No response, waiting 10 seconds...'',
                      Slept 10, Printed ''Retrying.'', Requested ''u'' None]\<rparr>)
   \<and> get_request 11 1000 always_404 ''u'' None idle_client
     = (Inl (NameError ''SSLError''), after_retries ''u'' None 989 idle_client)
   \<and> calls (after_retries ''u'' None 989 idle_client) = 989"
proof -
  have "get_request 11 1000 not_found_once ''u'' None idle_client
     = (Inr ''{}'',
        \<lparr>calls = 2,
           console = [Requested ''u'' None, Printed ''No response, waiting 10 seconds...'',
                      Slept 10, Printed ''Retrying.'', Requested ''u'' None]\<rparr>)"
    by code_simp
  moreover have "get_request 11 1000 always_404 ''u'' None idle_client
     = (Inl (if (11 :: nat) = 0 then RecursionError else NameError ''SSLError''),
        after_retries ''u'' None (1000 - 11) idle_client)"
    by (rule get_request_exhausts) (simp_all add: always_404_def truthy_def)
  ultimately show ?thesis
    by (simp add: idle_client_def)
qed

subsection \<open>Reading the checkpoint\<close>

text \<open>
  C5. \<^verbatim>\<open>get_index\<close> returns 0 when the index file does not exist. When the file exists
  and its first line is an integer literal, it returns that integer; when the file exists
  and its first line is no integer literal (also when the file is empty), it raises
  \<^verbatim>\<open>ValueError\<close> instead of returning 0. The first line is ASCII text, of at most 4300
  characters where a value is returned. What \<^verbatim>\<open>print(index, file=f)\<close> persisted for a
  64-bit index is what it returns.
\<close>

theorem get_index_absent_value_corrupt:
  "(files s (os_path_join download_path index_filename) = None \<longrightarrow>
      get_index download_path index_filename s = Inr 0)
   \<and> (\<forall>ls i. files s (os_path_join download_path index_filename) = Some ls \<longrightarrow>
         ascii_line (readline ls) \<longrightarrow> length (readline ls) \<le> 4300 \<longrightarrow>
         py_int (readline ls) = Some i \<longrightarrow>
         get_index download_path index_filename s = Inr i)
   \<and> (\<forall>ls. files s (os_path_join download_path index_filename) = Some ls \<longrightarrow>
         ascii_line (readline ls) \<longrightarrow>
         py_int (readline ls) = None \<longrightarrow>
         get_index download_path index_filename s = Inl ValueError)
   \<and> (- (2 ^ 63) \<le> i \<and> i < 2 ^ 63 \<longrightarrow>
        get_index download_path index_filename
          (write_file (os_path_join download_path index_filename) [py_str i] s') = Inr i)"
  by (simp add: get_index_def readline_def py_int_py_str)

theorem get_index_absent_value_corrupt_witness:
  "get_index ''d'' ''idx.txt'' empty_fs = Inr 0
   \<and> get_index ''d'' ''idx.txt'' \<lparr>files = [''d/idx.txt'' \<mapsto> ['' 42'', ''7'']], history = []\<rparr> = Inr 42
   \<and> get_index ''d'' ''idx.txt'' \<lparr>files = [''d/idx.txt'' \<mapsto> [''4x2'']], history = []\<rparr>
       = Inl ValueError
   \<and> get_index ''d'' ''idx.txt'' \<lparr>files = [''d/idx.txt'' \<mapsto> [[CHR 0x1C, CHR ''9'']]], history = []\<rparr>
       = Inl ValueError
   \<and> get_index ''d'' ''idx.txt'' \<lparr>files = [''d/idx.txt'' \<mapsto> []], history = []\<rparr>
       = Inl ValueError
   \<and> get_index ''d'' ''idx.txt'' (write_file ''d/idx.txt'' [py_str 15] empty_fs) = Inr 15"
proof -
  have p: "os_path_join ''d'' ''idx.txt'' = ''d/idx.txt''"
    by (simp add: os_path_join_def)
  have a: "py_int (readline ['' 42'', ''7'']) = Some 42"
    "ascii_line (readline ['' 42'', ''7''])" "length (readline ['' 42'', ''7'']) \<le> 4300"
    by code_simp+
  have b: "py_int (readline [''4x2'']) = None" "ascii_line (readline [''4x2''])"
    by code_simp+
  have c: "py_int (readline []) = None" "ascii_line (readline [])"
    by code_simp+
  have d: "py_int (readline [[CHR 0x1C, CHR ''9'']]) = None"
    "ascii_line (readline [[CHR 0x1C, CHR ''9'']])"
    by code_simp+
  have e: "- (2 ^ 63) \<le> (15 :: int) \<and> (15 :: int) < 2 ^ 63"
    by simp
  show ?thesis
    using get_index_absent_value_corrupt
            [of empty_fs "''d''" "''idx.txt''" 15 empty_fs]
          get_index_absent_value_corrupt
            [of "\<lparr>files = [''d/idx.txt'' \<mapsto> ['' 42'', ''7'']], history = []\<rparr>" "''d''" "''idx.txt''"]
          get_index_absent_value_corrupt
            [of "\<lparr>files = [''d/idx.txt'' \<mapsto> [''4x2'']], history = []\<rparr>" "''d''" "''idx.txt''"]
          get_index_absent_value_corrupt
            [of "\<lparr>files = [''d/idx.txt'' \<mapsto> [[CHR 0x1C, CHR ''9'']]], history = []\<rparr>" "''d''" "''idx.txt''"]
          get_index_absent_value_corrupt
            [of "\<lparr>files = [''d/idx.txt'' \<mapsto> []], history = []\<rparr>" "''d''" "''idx.txt''"]
    by (simp add: p a b c d e empty_fs_def)
qed

subsection \<open>The state after a run that completes\<close>

text \<open>
  C2, as the code has it. A call with an explicit end, \<open>0 \<le> begin \<le> end \<le> len(app_list)\<close>
  and a batch size of at least 1, on the module-level list, that completes: \<open>end - begin\<close>
  rows are appended to the sink, one per entity of \<open>[begin, end)\<close> in order. When
  \<open>begin < end\<close> the index file then holds \<open>end\<close>. When \<open>begin = end\<close> there is no
  batch and the call changes nothing, whatever the index file holds: it reads \<open>end\<close>
  after the call if and only if it read \<open>begin\<close> before.
\<close>

theorem clean_completion:
  assumes "1 \<le> batchsize" and "0 \<le> begin" and "begin \<le> end" and "end \<le> int (length app_list)"
    and "os_path_join dp df \<noteq> os_path_join dp ixf"
    and "fst (process_batches app_list fmt parser app_list dp df ixf cols begin end batchsize s)
           = None"
    and "s' = snd (process_batches app_list fmt parser app_list dp df ixf cols begin end batchsize s)"
  shows "(\<exists>recs. list_all2 (\<lambda>e d. parser (appid e) (name e) = Inr d) (py_slice app_list begin end) recs
          \<and> length recs = nat (end - begin)
          \<and> contents s' (os_path_join dp df)
              = contents s (os_path_join dp df) @ map (\<lambda>d. fmt (dict_to_list cols d)) recs)
    \<and> (begin < end \<longrightarrow>
          files s' (os_path_join dp ixf) = Some [py_str end] \<and> get_index dp ixf s' = Inr end)
    \<and> (begin = end \<longrightarrow>
          s' = s \<and> (get_index dp ixf s' = Inr end \<longleftrightarrow> get_index dp ixf s = Inr begin))"
proof -
  have full: "process_batches app_list fmt parser app_list dp df ixf cols begin end batchsize s
      = (None, s')"
    using assms(6,7) by (metis prod.collapse)
  obtain bs where bs: "batch_points app_list begin end batchsize = Inr bs"
    using batch_points_pos [OF assms(1)] by blast
  have loop: "batch_loop app_list fmt parser dp df ixf cols bs s = (None, s')"
    using full by (simp add: process_batches_points [OF bs])
  have e: "effective_end app_list end = end"
    using assms(2,3) by (simp add: effective_end_explicit)
  have same: "s' = s" if "begin = end"
  proof -
    have "bs = [end]"
      using batch_points_ends(4) [OF assms(1) bs] that e by simp
    then show ?thesis using loop by simp
  qed
  have idx: "files s' (os_path_join dp ixf) = Some [py_str end]" if "begin < end"
  proof -
    have "hd bs = begin" "last bs = end" "bs \<noteq> []"
      using batch_points_ends [OF assms(1) bs] that e by simp_all
    then have "2 \<le> length bs"
      using that by (cases bs) (auto split: if_splits simp: Suc_le_eq)
    then have "files s' (os_path_join dp ixf) = Some [py_str (last bs)]"
      using loop by (intro batch_loop_index_file)
    then show ?thesis
      using \<open>last bs = end\<close> by simp
  qed
  obtain recs where recs: "list_all2 (\<lambda>e d. parser (appid e) (name e) = Inr d)
        (py_slice app_list begin end) recs"
    and sink: "contents s' (os_path_join dp df)
        = contents s (os_path_join dp df) @ map (\<lambda>d. fmt (dict_to_list cols d)) recs"
    using process_batches_rows [OF assms(1,2,3,5) full] by blast
  have "length recs = length (py_slice app_list begin end)"
    using recs by (simp add: list_all2_lengthD)
  then have len: "length recs = nat (end - begin)"
    using assms(2,3,4) by (simp add: length_py_slice)
  show ?thesis
    using idx recs len sink same by (auto simp: get_index_written)
qed

theorem clean_completion_witness:
  "get_index ''d'' ''idx.txt''
      (snd (process_batches demo_apps demo_format demo_parser demo_apps ''d'' ''data.csv''
              ''idx.txt'' demo_columns 0 5 2 fresh_fs)) = Inr 5
   \<and> (\<exists>recs. length recs = 5
         \<and> contents (snd (process_batches demo_apps demo_format demo_parser demo_apps ''d''
                             ''data.csv'' ''idx.txt'' demo_columns 0 5 2 fresh_fs)) ''d/data.csv''
             = [''id,name,value''] @ map (\<lambda>d. demo_format (dict_to_list demo_columns d)) recs)
   \<and> snd (process_batches demo_apps demo_format demo_parser demo_apps ''d'' ''data.csv''
             ''idx.txt'' demo_columns 3 3 2 fresh_fs) = fresh_fs"
proof -
  have len: "5 \<le> int (length demo_apps)" "3 \<le> int (length demo_apps)"
    by (simp_all add: demo_apps_def)
  have paths: "os_path_join ''d'' ''data.csv'' \<noteq> os_path_join ''d'' ''idx.txt''"
    by (simp add: os_path_join_def)
  have p: "os_path_join ''d'' ''data.csv'' = ''d/data.csv''"
    by (simp add: os_path_join_def)
  have ok: "fst (process_batches demo_apps demo_format demo_parser demo_apps ''d'' ''data.csv''
      ''idx.txt'' demo_columns 0 5 2 fresh_fs) = None"
    by code_simp
  have ok3: "fst (process_batches demo_apps demo_format demo_parser demo_apps ''d'' ''data.csv''
      ''idx.txt'' demo_columns 3 3 2 fresh_fs) = None"
    by code_simp
  have before: "contents fresh_fs ''d/data.csv'' = [''id,name,value'']"
    by code_simp
  from clean_completion [OF _ _ _ len(1) paths ok refl]
       clean_completion [OF _ _ _ len(2) paths ok3 refl]
  show ?thesis
    by (auto simp: p before)
qed

text \<open>
  C2 as stated fails when \<open>begin = end\<close>: after the notebook has reset the index file to
  0, a call with \<open>begin = end = 3\<close> satisfies the preconditions and completes, and the
  index file still reads 0, not 3. On a file system with no index file, a call with
  \<open>begin = end = 0\<close> completes and there is still no index file.
\<close>

theorem clean_completion_counterexample:
  "(1 :: int) \<le> 2 \<and> (0 :: int) \<le> 3 \<and> (3 :: int) \<le> 3 \<and> 3 \<le> int (length demo_apps)
   \<and> fst (process_batches demo_apps demo_format demo_parser demo_apps ''d'' ''data.csv''
            ''idx.txt'' demo_columns 3 3 2 fresh_fs) = None
   \<and> get_index ''d'' ''idx.txt''
        (snd (process_batches demo_apps demo_format demo_parser demo_apps ''d'' ''data.csv''
                ''idx.txt'' demo_columns 3 3 2 fresh_fs)) = Inr 0
   \<and> get_index ''d'' ''idx.txt''
        (snd (process_batches demo_apps demo_format demo_parser demo_apps ''d'' ''data.csv''
                ''idx.txt'' demo_columns 3 3 2 fresh_fs)) \<noteq> Inr 3
   \<and> fst (process_batches demo_apps demo_format demo_parser demo_apps ''d'' ''data.csv''
            ''idx.txt'' demo_columns 0 0 2 empty_fs) = None
   \<and> files (snd (process_batches demo_apps demo_format demo_parser demo_apps ''d'' ''data.csv''
                   ''idx.txt'' demo_columns 0 0 2 empty_fs)) ''d/idx.txt'' = None"
proof -
  have len: "3 \<le> int (length demo_apps)"
    by (simp add: demo_apps_def)
  have ok: "fst (process_batches demo_apps demo_format demo_parser demo_apps ''d'' ''data.csv''
      ''idx.txt'' demo_columns 3 3 2 fresh_fs) = None"
    by code_simp
  have idx: "get_index ''d'' ''idx.txt''
      (snd (process_batches demo_apps demo_format demo_parser demo_apps ''d'' ''data.csv''
              ''idx.txt'' demo_columns 3 3 2 fresh_fs)) = Inr 0"
    by code_simp
  have ok0: "fst (process_batches demo_apps demo_format demo_parser demo_apps ''d'' ''data.csv''
      ''idx.txt'' demo_columns 0 0 2 empty_fs) = None"
    by code_simp
  have absent: "files (snd (process_batches demo_apps demo_format demo_parser demo_apps ''d''
      ''data.csv'' ''idx.txt'' demo_columns 0 0 2 empty_fs)) ''d/idx.txt'' = None"
    by code_simp
  show ?thesis
    using len ok idx ok0 absent by simp
qed

subsection \<open>The checkpoints a run persists\<close>

text \<open>Whatever ends a run, the file system it leaves is the one left by the batches that
  completed.\<close>

lemma batch_loop_outcome:
  "batch_loop G fmt parser dp df ixf cols bs s = (r, s') \<Longrightarrow>
   \<exists>k. k \<le> length (tl bs) \<and> (r = None \<longrightarrow> k = length (tl bs))
     \<and> batch_loop G fmt parser dp df ixf cols (take (Suc k) bs) s = (None, s')"
proof (induction G fmt parser dp df ixf cols bs s rule: batch_loop.induct)
  case (1 G fmt parser dp df ixf cols start stop rest s)
  show ?case
  proof (cases "get_app_data G start stop parser")
    case (Inl e)
    with "1.prems" have "r = Some e" "s' = s" by auto
    then show ?thesis by (intro exI [of _ 0]) simp
  next
    case (Inr app_data)
    define s2 where "s2 = write_file (os_path_join dp ixf) [py_str stop]
      (append_file (os_path_join dp df) (map (\<lambda>d. fmt (dict_to_list cols d)) app_data) s)"
    have run: "batch_loop G fmt parser dp df ixf cols (stop # rest) s2 = (r, s')"
      using "1.prems" Inr by (simp add: s2_def Let_def)
    from "1.IH" [OF Inr refl refl refl refl, folded s2_def, OF run]
    obtain k where k: "k \<le> length rest" "r = None \<longrightarrow> k = length rest"
      "batch_loop G fmt parser dp df ixf cols (take (Suc k) (stop # rest)) s2 = (None, s')"
      by auto
    have "batch_loop G fmt parser dp df ixf cols (take (Suc (Suc k)) (start # stop # rest)) s
        = (None, s')"
      using k(3) Inr by (simp add: s2_def Let_def)
    with k(1,2) show ?thesis
      by (intro exI [of _ "Suc k"]) simp
  qed
qed auto

text \<open>After each of the first \<open>k\<close> batches of a run, the index file holds the stop of that
  batch.\<close>

lemma batch_loop_checkpoint_after:
  assumes "batch_loop G fmt parser dp df ixf cols (take (Suc k) bs) s = (None, s')"
    and "k < length bs" and "0 < j" and "j \<le> k"
  shows "fst (batch_loop G fmt parser dp df ixf cols (take (Suc j) bs) s) = None"
    and "files (snd (batch_loop G fmt parser dp df ixf cols (take (Suc j) bs) s))
           (os_path_join dp ixf) = Some [py_str (bs ! j)]"
proof -
  have j: "j < length (take (Suc k) bs)"
    using assms(2,4) by simp
  have tk: "take (Suc j) (take (Suc k) bs) = take (Suc j) bs"
    using assms(4) by (simp add: min_def)
  show fin: "fst (batch_loop G fmt parser dp df ixf cols (take (Suc j) bs) s) = None"
    using batch_loop_prefix(1) [OF j assms(1)] unfolding tk .
  then obtain s_j where sj: "batch_loop G fmt parser dp df ixf cols (take (Suc j) bs) s = (None, s_j)"
    by (metis prod.collapse)
  have jl: "j < length bs" using assms(2,4) by simp
  have "files s_j (os_path_join dp ixf) = Some [py_str (last (take (Suc j) bs))]"
    using sj assms(3) jl by (intro batch_loop_index_file) simp_all
  moreover have "last (take (Suc j) bs) = bs ! j"
    using jl by (simp add: take_Suc_conv_app_nth)
  ultimately show "files (snd (batch_loop G fmt parser dp df ixf cols (take (Suc j) bs) s))
           (os_path_join dp ixf) = Some [py_str (bs ! j)]"
    using sj by simp
qed

text \<open>
  C6, as the code has it. With a batch size of at least 1, a run of \<^verbatim>\<open>process_batches\<close>
  ends in the file system left by the \<open>k\<close> batches it completed (all of them when it
  completes). After the \<open>j\<close>-th of them the index file holds the stop of that batch and
  \<^verbatim>\<open>get_index\<close> reads it; the truncating writes to the index file are these stops, in
  order, and nothing else. The stops are strictly increasing and all above \<open>begin\<close>, so
  the checkpoint never goes below the one stored before the run when that one is at most
  \<open>begin\<close>. With no batch completed the run leaves the file system as it was.
  \<^verbatim>\<open>reset_index\<close> leaves 0 in the index file.
\<close>

theorem checkpoint_monotone:
  assumes "1 \<le> batchsize"
    and "batch_points app_list begin end batchsize = Inr batches"
    and "run = process_batches G fmt parser app_list dp df ixf cols begin end batchsize s"
  shows "(\<exists>k. k \<le> length (tl batches)
           \<and> (fst run = None \<longrightarrow> k = length (tl batches))
           \<and> batch_loop G fmt parser dp df ixf cols (take (Suc k) batches) s = (None, snd run)
           \<and> (\<forall>j. 0 < j \<and> j \<le> k \<longrightarrow>
                 fst (batch_loop G fmt parser dp df ixf cols (take (Suc j) batches) s) = None
                 \<and> files (snd (batch_loop G fmt parser dp df ixf cols (take (Suc j) batches) s))
                     (os_path_join dp ixf) = Some [py_str (batches ! j)]
                 \<and> get_index dp ixf
                     (snd (batch_loop G fmt parser dp df ixf cols (take (Suc j) batches) s))
                     = Inr (batches ! j))
           \<and> (0 < k \<longrightarrow> files (snd run) (os_path_join dp ixf) = Some [py_str (batches ! k)]
                        \<and> get_index dp ixf (snd run) = Inr (batches ! k))
           \<and> (k = 0 \<longrightarrow> snd run = s)
           \<and> truncating_writes (os_path_join dp ixf) (history (snd run))
               = truncating_writes (os_path_join dp ixf) (history s)
                 @ map (\<lambda>stop. [py_str stop]) (take k (tl batches)))
    \<and> sorted_wrt (<) (tl batches)
    \<and> (\<forall>stop \<in> set (tl batches). begin < stop)
    \<and> (\<forall>c0. get_index dp ixf s = Inr c0 \<longrightarrow> c0 \<le> begin \<longrightarrow>
          (\<forall>stop \<in> set (tl batches). c0 < stop))
    \<and> files (reset_index dp ixf s0) (os_path_join dp ixf) = Some [py_str 0]
    \<and> get_index dp ixf (reset_index dp ixf s0) = Inr 0"
proof -
  obtain r s' where rs: "batch_loop G fmt parser dp df ixf cols batches s = (r, s')"
    by (cases "batch_loop G fmt parser dp df ixf cols batches s")
  then have pb: "run = (r, s')"
    using assms(3) by (simp add: process_batches_points [OF assms(2)])
  have ne: "batches \<noteq> []"
    using batch_points_ends(1) [OF assms(1,2)] .
  from batch_loop_outcome [OF rs] obtain k where k: "k \<le> length (tl batches)"
    "r = None \<longrightarrow> k = length (tl batches)"
    "batch_loop G fmt parser dp df ixf cols (take (Suc k) batches) s = (None, s')"
    by blast
  have kl: "k < length batches"
    using k(1) ne by (cases batches) simp_all
  have each: "fst (batch_loop G fmt parser dp df ixf cols (take (Suc j) batches) s) = None
        \<and> files (snd (batch_loop G fmt parser dp df ixf cols (take (Suc j) batches) s))
            (os_path_join dp ixf) = Some [py_str (batches ! j)]
        \<and> get_index dp ixf
            (snd (batch_loop G fmt parser dp df ixf cols (take (Suc j) batches) s))
            = Inr (batches ! j)" if "0 < j \<and> j \<le> k" for j
    using batch_loop_checkpoint_after [OF k(3) kl, of j] that
    by (simp add: get_index_written)
  have last_one: "files s' (os_path_join dp ixf) = Some [py_str (batches ! k)]
      \<and> get_index dp ixf s' = Inr (batches ! k)" if "0 < k"
    using each [of k] that k(3) by simp
  have none: "s' = s" if "k = 0"
    using k(3) that by (simp add: batch_loop_short)
  have writes: "truncating_writes (os_path_join dp ixf) (history s')
      = truncating_writes (os_path_join dp ixf) (history s)
        @ map (\<lambda>stop. [py_str stop]) (take k (tl batches))"
  proof -
    from batch_loop_checkpoints [OF k(3)] obtain k' where
      k': "k' = length (tl (take (Suc k) batches))"
      "truncating_writes (os_path_join dp ixf) (history s')
         = truncating_writes (os_path_join dp ixf) (history s)
           @ map (\<lambda>stop. [py_str stop]) (take k' (tl (take (Suc k) batches)))"
      by auto
    have "tl (take (Suc k) batches) = take k (tl batches)"
      using ne by (cases batches) simp_all
    then show ?thesis using k' k(1) by simp
  qed
  have strict: "sorted_wrt (<) batches"
    using assms(1,2) by (rule batch_points_sorted)
  have inc: "sorted_wrt (<) (tl batches)"
    using strict ne by (cases batches) simp_all
  have above: "\<forall>stop \<in> set (tl batches). begin < stop"
  proof (cases "begin < effective_end app_list end")
    case True
    then have "hd batches = begin"
      using batch_points_ends(3) [OF assms(1,2)] by simp
    then show ?thesis
      using strict ne by (cases batches) auto
  next
    case False
    then have "batches = [effective_end app_list end]"
      using batch_points_ends(4) [OF assms(1,2)] by simp
    then show ?thesis by simp
  qed
  have stored: "\<forall>c0. get_index dp ixf s = Inr c0 \<longrightarrow> c0 \<le> begin \<longrightarrow>
          (\<forall>stop \<in> set (tl batches). c0 < stop)"
  proof (intro allI impI ballI)
    fix c0 stop
    assume "c0 \<le> begin" and "stop \<in> set (tl batches)"
    with above have "begin < stop" by blast
    with \<open>c0 \<le> begin\<close> show "c0 < stop" by simp
  qed
  have reset: "files (reset_index dp ixf s0) (os_path_join dp ixf) = Some [py_str 0]"
    by (simp add: reset_index_def)
  then have reset_read: "get_index dp ixf (reset_index dp ixf s0) = Inr 0"
    by (rule get_index_written)
  have r: "fst run = r" and s': "snd run = s'"
    by (simp_all add: pb)
  have first: "\<exists>k. k \<le> length (tl batches)
           \<and> (fst run = None \<longrightarrow> k = length (tl batches))
           \<and> batch_loop G fmt parser dp df ixf cols (take (Suc k) batches) s = (None, snd run)
           \<and> (\<forall>j. 0 < j \<and> j \<le> k \<longrightarrow>
                 fst (batch_loop G fmt parser dp df ixf cols (take (Suc j) batches) s) = None
                 \<and> files (snd (batch_loop G fmt parser dp df ixf cols (take (Suc j) batches) s))
                     (os_path_join dp ixf) = Some [py_str (batches ! j)]
                 \<and> get_index dp ixf
                     (snd (batch_loop G fmt parser dp df ixf cols (take (Suc j) batches) s))
                     = Inr (batches ! j))
           \<and> (0 < k \<longrightarrow> files (snd run) (os_path_join dp ixf) = Some [py_str (batches ! k)]
                        \<and> get_index dp ixf (snd run) = Inr (batches ! k))
           \<and> (k = 0 \<longrightarrow> snd run = s)
           \<and> truncating_writes (os_path_join dp ixf) (history (snd run))
               = truncating_writes (os_path_join dp ixf) (history s)
                 @ map (\<lambda>stop. [py_str stop]) (take k (tl batches))"
    unfolding r s'
  proof (intro exI [of _ k] conjI allI impI)
    show "k \<le> length (tl batches)" by (rule k(1))
    show "k = length (tl batches)" if "r = None" using k(2) that by simp
    show "batch_loop G fmt parser dp df ixf cols (take (Suc k) batches) s = (None, s')"
      by (rule k(3))
    show "fst (batch_loop G fmt parser dp df ixf cols (take (Suc j) batches) s) = None"
      if "0 < j \<and> j \<le> k" for j using each [OF that] by simp
    show "files (snd (batch_loop G fmt parser dp df ixf cols (take (Suc j) batches) s))
            (os_path_join dp ixf) = Some [py_str (batches ! j)]"
      if "0 < j \<and> j \<le> k" for j using each [OF that] by simp
    show "get_index dp ixf
            (snd (batch_loop G fmt parser dp df ixf cols (take (Suc j) batches) s))
            = Inr (batches ! j)"
      if "0 < j \<and> j \<le> k" for j using each [OF that] by simp
    show "files s' (os_path_join dp ixf) = Some [py_str (batches ! k)]" if "0 < k"
      using last_one [OF that] by simp
    show "get_index dp ixf s' = Inr (batches ! k)" if "0 < k"
      using last_one [OF that] by simp
    show "s' = s" if "k = 0" using none [OF that] .
    show "truncating_writes (os_path_join dp ixf) (history s')
        = truncating_writes (os_path_join dp ixf) (history s)
          @ map (\<lambda>stop. [py_str stop]) (take k (tl batches))"
      by (rule writes)
  qed
  show ?thesis
    by (intro conjI first inc above stored reset reset_read)
qed


theorem checkpoint_monotone_witness:
  "get_index ''d'' ''idx.txt''
      (snd (process_batches demo_apps demo_format demo_parser demo_apps ''d'' ''data.csv''
              ''idx.txt'' demo_columns 0 5 2 fresh_fs)) = Inr 5
   \<and> get_index ''d'' ''idx.txt''
      (snd (batch_loop demo_apps demo_format demo_parser ''d'' ''data.csv'' ''idx.txt''
              demo_columns [0, 2] fresh_fs)) = Inr 2
   \<and> truncating_writes ''d/idx.txt''
      (history (snd (process_batches demo_apps demo_format demo_parser demo_apps ''d''
                       ''data.csv'' ''idx.txt'' demo_columns 0 5 2 fresh_fs)))
     = [[''0''], [''2''], [''4''], [''5'']]
   \<and> sorted_wrt (<) [2, 4, 5 :: int]
   \<and> get_index ''d'' ''idx.txt'' (reset_index ''d'' ''idx.txt'' fs_at_4) = Inr 0"
proof -
  have pts: "batch_points demo_apps 0 5 2 = Inr [0, 2, 4, 5]"
    by code_simp
  have ok: "fst (process_batches demo_apps demo_format demo_parser demo_apps ''d'' ''data.csv''
      ''idx.txt'' demo_columns 0 5 2 fresh_fs) = None"
    by code_simp
  have p: "os_path_join ''d'' ''idx.txt'' = ''d/idx.txt''"
    by (simp add: os_path_join_def)
  have h0: "truncating_writes ''d/idx.txt'' (history fresh_fs) = [[''0'']]"
    by code_simp
  have rendered: "py_str 2 = ''2''" "py_str 4 = ''4''" "py_str 5 = ''5''"
    by code_simp+
  have bsz: "(1 :: int) \<le> 2" by simp
  note w = checkpoint_monotone [OF bsz pts refl, of demo_apps demo_format demo_parser "''d''"
      "''data.csv''" "''idx.txt''" demo_columns fresh_fs fs_at_4]
  from w [THEN conjunct1] obtain k where kk:
    "k \<le> length (tl [0, 2, 4, 5 :: int])
           \<and> (fst (process_batches demo_apps demo_format demo_parser demo_apps ''d'' ''data.csv''
              ''idx.txt'' demo_columns 0 5 2 fresh_fs) = None \<longrightarrow> k = length (tl [0, 2, 4, 5 :: int]))
           \<and> batch_loop demo_apps demo_format demo_parser ''d'' ''data.csv'' ''idx.txt'' demo_columns (take (Suc k) [0, 2, 4, 5 :: int]) fresh_fs = (None, snd (process_batches demo_apps demo_format demo_parser demo_apps ''d'' ''data.csv''
              ''idx.txt'' demo_columns 0 5 2 fresh_fs))
           \<and> (\<forall>j. 0 < j \<and> j \<le> k \<longrightarrow>
                 fst (batch_loop demo_apps demo_format demo_parser ''d'' ''data.csv'' ''idx.txt'' demo_columns (take (Suc j) [0, 2, 4, 5 :: int]) fresh_fs) = None
                 \<and> files (snd (batch_loop demo_apps demo_format demo_parser ''d'' ''data.csv'' ''idx.txt'' demo_columns (take (Suc j) [0, 2, 4, 5 :: int]) fresh_fs))
                     (os_path_join ''d'' ''idx.txt'') = Some [py_str ([0, 2, 4, 5 :: int] ! j)]
                 \<and> get_index ''d'' ''idx.txt''
                     (snd (batch_loop demo_apps demo_format demo_parser ''d'' ''data.csv'' ''idx.txt'' demo_columns (take (Suc j) [0, 2, 4, 5 :: int]) fresh_fs))
                     = Inr ([0, 2, 4, 5 :: int] ! j))
           \<and> (0 < k \<longrightarrow> files (snd (process_batches demo_apps demo_format demo_parser demo_apps ''d'' ''data.csv''
              ''idx.txt'' demo_columns 0 5 2 fresh_fs)) (os_path_join ''d'' ''idx.txt'') = Some [py_str ([0, 2, 4, 5 :: int] ! k)]
                        \<and> get_index ''d'' ''idx.txt'' (snd (process_batches demo_apps demo_format demo_parser demo_apps ''d'' ''data.csv''
              ''idx.txt'' demo_columns 0 5 2 fresh_fs)) = Inr ([0, 2, 4, 5 :: int] ! k))
           \<and> (k = 0 \<longrightarrow> snd (process_batches demo_apps demo_format demo_parser demo_apps ''d'' ''data.csv''
              ''idx.txt'' demo_columns 0 5 2 fresh_fs) = fresh_fs)
           \<and> truncating_writes (os_path_join ''d'' ''idx.txt'') (history (snd (process_batches demo_apps demo_format demo_parser demo_apps ''d'' ''data.csv''
              ''idx.txt'' demo_columns 0 5 2 fresh_fs)))
               = truncating_writes (os_path_join ''d'' ''idx.txt'') (history fresh_fs)
                 @ map (\<lambda>stop. [py_str stop]) (take k (tl [0, 2, 4, 5 :: int]))"
    ..
  have k3: "k = 3" using kk ok by simp
  have a: "get_index ''d'' ''idx.txt''
      (snd (process_batches demo_apps demo_format demo_parser demo_apps ''d'' ''data.csv''
              ''idx.txt'' demo_columns 0 5 2 fresh_fs)) = Inr 5"
  proof -
    from kk have "0 < k \<longrightarrow> get_index ''d'' ''idx.txt''
         (snd (process_batches demo_apps demo_format demo_parser demo_apps ''d'' ''data.csv''
                 ''idx.txt'' demo_columns 0 5 2 fresh_fs)) = Inr ([0, 2, 4, 5] ! k)"
      by (elim conjE) (rule impI, simp)
    then show ?thesis using k3 by simp
  qed
  have b: "get_index ''d'' ''idx.txt''
      (snd (batch_loop demo_apps demo_format demo_parser ''d'' ''data.csv'' ''idx.txt''
              demo_columns [0, 2] fresh_fs)) = Inr 2"
  proof -
    from kk have "\<forall>j. 0 < j \<and> j \<le> k \<longrightarrow>
       get_index ''d'' ''idx.txt''
         (snd (batch_loop demo_apps demo_format demo_parser ''d'' ''data.csv'' ''idx.txt''
                 demo_columns (take (Suc j) [0, 2, 4, 5]) fresh_fs)) = Inr ([0, 2, 4, 5] ! j)"
      by (elim conjE) (intro allI impI, simp)
    then have "0 < (1 :: nat) \<and> 1 \<le> k \<longrightarrow>
       get_index ''d'' ''idx.txt''
         (snd (batch_loop demo_apps demo_format demo_parser ''d'' ''data.csv'' ''idx.txt''
                 demo_columns (take (Suc 1) [0, 2, 4, 5]) fresh_fs)) = Inr ([0, 2, 4, 5] ! 1)"
      by (rule spec)
    then show ?thesis using k3 by simp
  qed
  have c: "truncating_writes ''d/idx.txt''
      (history (snd (process_batches demo_apps demo_format demo_parser demo_apps ''d''
                       ''data.csv'' ''idx.txt'' demo_columns 0 5 2 fresh_fs)))
     = [[''0''], [''2''], [''4''], [''5'']]"
  proof -
    from kk have "truncating_writes (os_path_join ''d'' ''idx.txt'')
       (history (snd (process_batches demo_apps demo_format demo_parser demo_apps ''d''
                        ''data.csv'' ''idx.txt'' demo_columns 0 5 2 fresh_fs)))
     = truncating_writes (os_path_join ''d'' ''idx.txt'') (history fresh_fs)
       @ map (\<lambda>stop. [py_str stop]) (take k (tl [0, 2, 4, 5]))"
      by (elim conjE)
    then show ?thesis using k3 by (simp add: p h0 rendered)
  qed
  have d: "get_index ''d'' ''idx.txt'' (reset_index ''d'' ''idx.txt'' fs_at_4) = Inr 0"
    using w [THEN conjunct2, THEN conjunct2, THEN conjunct2, THEN conjunct2, THEN conjunct2] .
  show ?thesis
    using a b c d by simp
qed

text \<open>
  C6 as stated fails across runs: with 4 in the index file, a call with \<open>begin = 0\<close> and
  \<open>end = 2\<close> completes and leaves 2 in the index file. No \<^verbatim>\<open>reset_index\<close> was called:
  the only truncating write the call made to the index file is that of the 2.
\<close>

theorem checkpoint_monotone_counterexample:
  "get_index ''d'' ''idx.txt'' fs_at_4 = Inr 4
   \<and> fst (process_batches demo_apps demo_format demo_parser demo_apps ''d'' ''data.csv''
            ''idx.txt'' demo_columns 0 2 2 fs_at_4) = None
   \<and> get_index ''d'' ''idx.txt''
        (snd (process_batches demo_apps demo_format demo_parser demo_apps ''d'' ''data.csv''
                ''idx.txt'' demo_columns 0 2 2 fs_at_4)) = Inr 2
   \<and> truncating_writes ''d/idx.txt''
        (history (snd (process_batches demo_apps demo_format demo_parser demo_apps ''d''
                         ''data.csv'' ''idx.txt'' demo_columns 0 2 2 fs_at_4)))
       = truncating_writes ''d/idx.txt'' (history fs_at_4) @ [[''2'']]"
  by code_simp

end
